theory Spec2Isabelle
  imports Complex_Main
begin

section \<open>Data model (types/observation.ts)\<close>

text \<open>
  The nested object \<open>observations\<close> of an Observation. \<open>meteorsCount\<close> and
  \<open>fireballs\<close> are counts, modelled as integers; the optional members
  \<open>brightestMagnitude\<close> and \<open>peakActivity\<close> are never read by the service and
  are left out.
\<close>

record tally =
  meteorsCount :: int
  fireballs :: int
  colorsSeen :: "string list"

text \<open>
  One stored Observation. The fields \<open>id\<close> and \<open>notes\<close> of the source are \<open>id'\<close>
  and \<open>notes'\<close> here (\<open>id\<close> is the identity function of HOL, \<open>notes\<close> a keyword).
  \<open>location\<close>, \<open>conditions\<close>, \<open>equipment\<close> and \<open>photos\<close> are never read by
  ObservationService and are left out. Dates, clock times and timestamps are the
  strings the source stores.
\<close>

record observation =
  id' :: string
  showerId :: string
  showerName :: string
  date :: string
  startTime :: string
  endTime :: string
  observations :: tally
  notes' :: string
  rating :: int
  createdAt :: string
  updatedAt :: string

text \<open>
  A JavaScript number where the service can produce one that is not finite:
  \<open>NaN\<close> (from an Invalid Date) and \<open>-Infinity\<close> (\<open>Math.max()\<close> of no
  arguments). Finite doubles are idealised as reals.
\<close>

datatype number = NaN | NegInfinity | Num real

text \<open>The member \<open>bestSession\<close> of a per-shower entry (fields prefixed \<open>bs_\<close>).\<close>

record bestSession =
  bs_date :: string
  bs_meteors :: int
  bs_rating :: int

text \<open>ObservationShowerStats (fields prefixed \<open>sh_\<close>).\<close>

record showerStat =
  sh_observations :: nat
  sh_totalMeteors :: int
  sh_averageRating :: real
  sh_bestSession :: bestSession

text \<open>A decimal digit, and the number a string of digits writes (after \<open>acc\<close>).\<close>

definition digit :: "char \<Rightarrow> int option" where
  "digit c =
     (let n = (of_char c :: nat) in if 48 \<le> n \<and> n \<le> 57 then Some (int n - 48) else None)"

fun digits :: "int \<Rightarrow> string \<Rightarrow> int option" where
  "digits acc [] = Some acc"
| "digits acc (c # cs) = (case digit c of None \<Rightarrow> None | Some v \<Rightarrow> digits (10 * acc + v) cs)"

text \<open>
  An array index among property keys: the canonical decimal string (no leading zero
  but for \<open>0\<close> itself) of an integer from 0 to \<open>2^32 - 2\<close>.
\<close>

definition arrayIndex :: "string \<Rightarrow> int option" where
  "arrayIndex k =
     (if k = [] \<or> (hd k = CHR ''0'' \<and> length k > 1) then None
      else (case digits 0 k of
              Some n \<Rightarrow> if n < 4294967295 then Some n else None
            | None \<Rightarrow> None))"

text \<open>
  A plain JavaScript object used as a dictionary with string keys: the list of its own
  properties in the order in which \<open>Object.keys\<close> (and \<open>JSON.stringify\<close>) enumerate
  them, which is the array indices in ascending order first and then the other keys in
  the order of their creation. Reading a property is \<open>map_of\<close>. Assigning one is
  \<open>setProp\<close>: an existing property is overwritten in place; a new one goes before the
  first property it precedes, so a new array index goes among the array indices and any
  other new key to the end. (Names that every object inherits, such as
  \<open>constructor\<close>, are set apart: looked up in an object that has no such property of
  its own they are not \<open>undefined\<close>, and calculateStats throws on such a shower id.)
\<close>

type_synonym 'v object = "(string \<times> 'v) list"

definition precedes :: "string \<Rightarrow> string \<Rightarrow> bool" where
  "precedes k k' =
     (case arrayIndex k of
        None \<Rightarrow> False
      | Some n \<Rightarrow> (case arrayIndex k' of None \<Rightarrow> True | Some m \<Rightarrow> n < m))"

fun replaceProp :: "string \<Rightarrow> 'v \<Rightarrow> 'v object \<Rightarrow> 'v object" where
  "replaceProp k v [] = []"
| "replaceProp k v ((k', v') # ps) = (if k' = k then (k, v) # ps else (k', v') # replaceProp k v ps)"

fun insertProp :: "string \<Rightarrow> 'v \<Rightarrow> 'v object \<Rightarrow> 'v object" where
  "insertProp k v [] = [(k, v)]"
| "insertProp k v ((k', v') # ps) =
     (if precedes k k' then (k, v) # (k', v') # ps else (k', v') # insertProp k v ps)"

definition setProp :: "string \<Rightarrow> 'v \<Rightarrow> 'v object \<Rightarrow> 'v object" where
  "setProp k v obj = (if k \<in> fst ` set obj then replaceProp k v obj else insertProp k v obj)"

text \<open>\<open>Object.keys\<close>.\<close>

definition keys :: "'v object \<Rightarrow> string list" where
  "keys obj = map fst obj"

text \<open>
  ObservationStats. The type \<open>'n\<close> is that of the two fields that can be NaN:
  \<open>number\<close> for the stats that calculateStats computes, \<open>jsonNumber\<close> for stats
  read back from their JSON text.
\<close>

record 'n statsOf =
  totalObservations :: nat
  totalMeteors :: int
  totalHours :: 'n
  averageRating :: real
  favoriteShower :: string
  longestSession :: 'n
  currentStreak :: nat
  longestStreak :: nat
  monthlyStats :: "nat object"
  showerStats :: "showerStat object"

type_synonym observationStats = "number statsOf"

text \<open>
  JSON has neither NaN nor the infinities: \<open>JSON.stringify\<close> writes them as
  \<open>null\<close>, and \<open>JSON.parse\<close> reads \<open>null\<close> back. \<open>toJSON stats\<close> is
  \<open>JSON.parse (JSON.stringify stats)\<close>. Integers, finite numbers, strings and objects
  of them come back as they were.
\<close>

datatype jsonNumber = JNull | JNum real

type_synonym persistedStats = "jsonNumber statsOf"

fun jsonOfNumber :: "number \<Rightarrow> jsonNumber" where
  "jsonOfNumber (Num x) = JNum x"
| "jsonOfNumber NaN = JNull"
| "jsonOfNumber NegInfinity = JNull"

definition toJSON :: "observationStats \<Rightarrow> persistedStats" where
  "toJSON stats =
     \<lparr> totalObservations = totalObservations stats,
       totalMeteors = totalMeteors stats,
       totalHours = jsonOfNumber (totalHours stats),
       averageRating = averageRating stats,
       favoriteShower = favoriteShower stats,
       longestSession = jsonOfNumber (longestSession stats),
       currentStreak = currentStreak stats,
       longestStreak = longestStreak stats,
       monthlyStats = monthlyStats stats,
       showerStats = showerStats stats \<rparr>"

section \<open>The JavaScript runtime\<close>

text \<open>
  What the service asks of the runtime's \<open>Date\<close>, taken as a parameter:
  \<^item> \<open>getTime s\<close> is \<open>new Date(s).getTime()\<close>, the time value in milliseconds since the
    epoch, \<open>None\<close> for an Invalid Date (whose time value is NaN);
  \<^item> \<open>monthLabel s\<close> is
    \<open>new Date(s).toLocaleDateString('en-US', { year: 'numeric', month: 'long' })\<close>.
  The wall clock (\<open>new Date()\<close>) is a separate argument \<open>today\<close> of the functions that
  read it, in milliseconds since the epoch.
\<close>

record runtime =
  getTime :: "string \<Rightarrow> int option"
  monthLabel :: "string \<Rightarrow> string"

section \<open>ObservationService.calculateStreaks\<close>

text \<open>
  \<open>(b.getTime() - a.getTime()) / (1000 * 60 * 60 * 24) <= 7\<close>. A comparison with NaN is
  false. Time values are integers below \<open>2^53\<close>, and a difference above seven days
  exceeds it by a millisecond at least, so the rounding of the double division cannot
  change the outcome of the comparison.
\<close>

definition withinWeek :: "int option \<Rightarrow> int option \<Rightarrow> bool" where
  "withinWeek a b =
     (case (a, b) of
        (Some x, Some y) \<Rightarrow> real_of_int (y - x) / (1000 * 60 * 60 * 24) \<le> 7
      | _ \<Rightarrow> False)"

text \<open>
  The \<open>for\<close> loop of calculateStreaks from index \<open>i\<close> on: the list starts at
  \<open>sortedObservations[i - 1]\<close>, the state is the pair of the local variables
  \<open>tempStreak\<close> and \<open>longestStreak\<close> (here \<open>temp\<close> and \<open>longest\<close>).
\<close>

fun streakLoop :: "runtime \<Rightarrow> observation list \<Rightarrow> nat \<times> nat \<Rightarrow> nat \<times> nat" where
  "streakLoop rt (prevOb # currOb # obs) (temp, longest) =
     (if withinWeek (getTime rt (date prevOb)) (getTime rt (date currOb))
      then streakLoop rt (currOb # obs) (temp + 1, longest)
      else streakLoop rt (currOb # obs) (1, max longest temp))"
| "streakLoop rt [prevOb] s = s"
| "streakLoop rt [] s = s"

text \<open>The result is the pair \<open>(currentStreak, longestStreak)\<close>.\<close>

definition calculateStreaks :: "runtime \<Rightarrow> int \<Rightarrow> observation list \<Rightarrow> nat \<times> nat" where
  "calculateStreaks rt today sortedObservations =
     (if sortedObservations = [] then (0, 0)
      else
        let (temp, longest) = streakLoop rt sortedObservations (1, 1);
            longest' = max longest temp;
            lastObsDate = getTime rt (date (last sortedObservations));
            current = (if withinWeek lastObsDate (Some today) then temp else 0)
        in (current, longest'))"

section \<open>ObservationService.calculateStats\<close>

text \<open>
  The duration of one session in hours, as both reduce callbacks compute it:
  \<open>new Date(`${obs.date}T${obs.startTime}`)\<close> and the same with \<open>endTime\<close>, both on
  the session's own date, then \<open>(end.getTime() - start.getTime()) / (1000 * 60 * 60)\<close>.
\<close>

definition sessionHours :: "runtime \<Rightarrow> observation \<Rightarrow> number" where
  "sessionHours rt ob =
     (case (getTime rt (date ob @ ''T'' @ startTime ob),
            getTime rt (date ob @ ''T'' @ endTime ob)) of
        (Some start, Some en) \<Rightarrow> Num (real_of_int (en - start) / (1000 * 60 * 60))
      | _ \<Rightarrow> NaN)"

text \<open>Addition of numbers: NaN is absorbing.\<close>

fun jsAdd :: "number \<Rightarrow> number \<Rightarrow> number" where
  "jsAdd NaN y = NaN"
| "jsAdd x NaN = NaN"
| "jsAdd (Num a) (Num b) = Num (a + b)"
| "jsAdd NegInfinity y = NegInfinity"
| "jsAdd x NegInfinity = NegInfinity"

text \<open>\<open>Math.max\<close>: NaN if any argument is NaN, \<open>-Infinity\<close> for no argument.\<close>

fun jsMax :: "number \<Rightarrow> number \<Rightarrow> number" where
  "jsMax NaN y = NaN"
| "jsMax x NaN = NaN"
| "jsMax NegInfinity y = y"
| "jsMax x NegInfinity = x"
| "jsMax (Num a) (Num b) = Num (max a b)"

definition mathMax :: "number list \<Rightarrow> number" where
  "mathMax xs = foldl jsMax NegInfinity xs"

text \<open>
  \<open>monthlyStats[month] = (monthlyStats[month] || 0) + 1\<close> for one observation.
\<close>

definition monthStep :: "runtime \<Rightarrow> nat object \<Rightarrow> observation \<Rightarrow> nat object" where
  "monthStep rt ms ob =
     (let month = monthLabel rt (date ob)
      in setProp month ((case map_of ms month of Some c \<Rightarrow> c | None \<Rightarrow> 0) + 1) ms)"

definition sessionOf :: "observation \<Rightarrow> bestSession" where
  "sessionOf ob =
     \<lparr> bs_date = date ob, bs_meteors = meteorsCount (observations ob), bs_rating = rating ob \<rparr>"

text \<open>
  The body of the second \<open>forEach\<close>: the entry of the observation's shower is created
  if the object has none, then counted up, and its bestSession replaced when the
  observation has more meteors, or as many and a higher rating. The entry is an object
  updated in place; here the updated entry is stored back under its key.
\<close>

definition showerStep :: "showerStat object \<Rightarrow> observation \<Rightarrow> showerStat object" where
  "showerStep ss ob =
     (let stats0 = (case map_of ss (showerId ob) of
                      None \<Rightarrow> \<lparr> sh_observations = 0, sh_totalMeteors = 0, sh_averageRating = 0,
                                sh_bestSession = sessionOf ob \<rparr>
                    | Some st \<Rightarrow> st);
          stats1 = stats0 \<lparr> sh_observations := sh_observations stats0 + 1,
                           sh_totalMeteors := sh_totalMeteors stats0 + meteorsCount (observations ob) \<rparr>;
          stats2 = (if meteorsCount (observations ob) > bs_meteors (sh_bestSession stats1) \<or>
                       (meteorsCount (observations ob) = bs_meteors (sh_bestSession stats1) \<and>
                        rating ob > bs_rating (sh_bestSession stats1))
                    then stats1 \<lparr> sh_bestSession := sessionOf ob \<rparr>
                    else stats1)
      in setProp (showerId ob) stats2 ss)"

text \<open>The pass over \<open>Object.keys(showerStats)\<close> that fills in averageRating.\<close>

definition ratingSum :: "observation list \<Rightarrow> int" where
  "ratingSum obs = foldl (\<lambda>sum ob. sum + rating ob) 0 obs"

definition withAverages :: "observation list \<Rightarrow> showerStat object \<Rightarrow> showerStat object" where
  "withAverages obs ss =
     map (\<lambda>(sid, st).
            (sid, let showerObs = filter (\<lambda>ob. showerId ob = sid) obs
                  in st \<lparr> sh_averageRating :=
                            real_of_int (ratingSum showerObs) / real (length showerObs) \<rparr>))
         ss"

text \<open>\<open>showerStats[k]?.observations || 0\<close>.\<close>

definition countOr0 :: "showerStat object \<Rightarrow> string \<Rightarrow> nat" where
  "countOr0 ss k = (case map_of ss k of None \<Rightarrow> 0 | Some st \<Rightarrow> sh_observations st)"

text \<open>The reduce over \<open>Object.keys(showerStats)\<close>, starting from the empty string.\<close>

definition pickFavorite :: "showerStat object \<Rightarrow> string" where
  "pickFavorite ss =
     foldl (\<lambda>fav sid. if countOr0 ss sid > countOr0 ss fav then sid else fav) [] (keys ss)"

text \<open>
  \<open>observations.sort((a, b) => new Date(a.date).getTime() - new Date(b.date).getTime())\<close>.
  \<open>dateAfter rt a b\<close> says that the comparator is positive at \<open>(a, b)\<close>; a NaN result
  counts as 0. The sort is stable, and is modelled by insertion from the right. (With
  an Invalid Date in the list the comparator is not consistent and the order the
  engine produces is implementation-defined; the insertion order is one such order.)
\<close>

definition dateAfter :: "runtime \<Rightarrow> observation \<Rightarrow> observation \<Rightarrow> bool" where
  "dateAfter rt a b =
     (case (getTime rt (date a), getTime rt (date b)) of
        (Some x, Some y) \<Rightarrow> x - y > 0
      | _ \<Rightarrow> False)"

fun insertByDate :: "runtime \<Rightarrow> observation \<Rightarrow> observation list \<Rightarrow> observation list" where
  "insertByDate rt x [] = [x]"
| "insertByDate rt x (y # ys) =
     (if dateAfter rt x y then y # insertByDate rt x ys else x # y # ys)"

definition sortByDate :: "runtime \<Rightarrow> observation list \<Rightarrow> observation list" where
  "sortByDate rt obs = foldr (insertByDate rt) obs []"

definition getEmptyStats :: observationStats where
  "getEmptyStats =
     \<lparr> totalObservations = 0, totalMeteors = 0, totalHours = Num 0, averageRating = 0,
       favoriteShower = [], longestSession = Num 0, currentStreak = 0, longestStreak = 0,
       monthlyStats = [], showerStats = [] \<rparr>"

text \<open>
  calculateStats. \<open>today\<close> is the wall clock that calculateStreaks reads. The sort
  is in place, so longestSession and \<open>observations.length\<close> read the sorted array;
  everything before the sort reads the array in the order given.
\<close>

definition calculateStats :: "runtime \<Rightarrow> int \<Rightarrow> observation list \<Rightarrow> observationStats" where
  "calculateStats rt today obs =
     (if length obs = 0 then getEmptyStats
      else
        let totalMeteors' = foldl (\<lambda>sum ob. sum + meteorsCount (observations ob)) 0 obs;
            totalHours' = foldl (\<lambda>sum ob. jsAdd sum (sessionHours rt ob)) (Num 0) obs;
            averageRating' = real_of_int (ratingSum obs) / real (length obs);
            monthlyStats' = foldl (monthStep rt) [] obs;
            showerStats' = withAverages obs (foldl showerStep [] obs);
            favoriteShower' = pickFavorite showerStats';
            sortedObs = sortByDate rt obs;
            (currentStreak', longestStreak') = calculateStreaks rt today sortedObs;
            longestSession' = mathMax (map (sessionHours rt) sortedObs)
        in \<lparr> totalObservations = length sortedObs,
             totalMeteors = totalMeteors',
             totalHours = totalHours',
             averageRating = averageRating',
             favoriteShower = favoriteShower',
             longestSession = longestSession',
             currentStreak = currentStreak',
             longestStreak = longestStreak',
             monthlyStats = monthlyStats',
             showerStats = showerStats' \<rparr>)"

section \<open>ObservationService: the operations on the store\<close>

text \<open>
  AsyncStorage holds two items, under \<open>user_observations\<close> and \<open>observation_stats\<close>.
  An item is a JSON text and is modelled by the value that \<open>JSON.parse\<close> reads from
  it: for the observation list, whose fields are strings and integers, the list that
  was written; for the stats, \<open>toJSON\<close> of the stats that were written. \<open>None\<close> is an
  absent item, for which \<open>getItem\<close> resolves to \<open>null\<close>. Each call of \<open>getItem\<close> or \<open>setItem\<close>
  may reject: \<open>faults\<close> says, for the calls still to come and in their order, which of
  them do; past its end no call fails. A rejected \<open>setItem\<close> leaves the item as it was.
\<close>

datatype storageError = StorageError

record storage =
  observationsItem :: "observation list option"
  statsItem :: "persistedStats option"
  faults :: "bool list"

definition nextFault :: "storage \<Rightarrow> bool \<times> storage" where
  "nextFault st = (case faults st of [] \<Rightarrow> (False, st) | f # fs \<Rightarrow> (f, st \<lparr> faults := fs \<rparr>))"

definition getItemObservations :: "storage \<Rightarrow> (storageError + observation list option) \<times> storage" where
  "getItemObservations st =
     (let (f, st') = nextFault st
      in if f then (Inl StorageError, st') else (Inr (observationsItem st'), st'))"

definition setItemObservations :: "observation list \<Rightarrow> storage \<Rightarrow> (storageError + unit) \<times> storage" where
  "setItemObservations xs st =
     (let (f, st') = nextFault st
      in if f then (Inl StorageError, st') else (Inr (), st' \<lparr> observationsItem := Some xs \<rparr>))"

definition getItemStats :: "storage \<Rightarrow> (storageError + persistedStats option) \<times> storage" where
  "getItemStats st =
     (let (f, st') = nextFault st
      in if f then (Inl StorageError, st') else (Inr (statsItem st'), st'))"

text \<open>\<open>AsyncStorage.setItem(this.STATS_KEY, JSON.stringify(stats))\<close>.\<close>

definition setItemStats :: "observationStats \<Rightarrow> storage \<Rightarrow> (storageError + unit) \<times> storage" where
  "setItemStats v st =
     (let (f, st') = nextFault st
      in if f then (Inl StorageError, st')
         else (Inr (), st' \<lparr> statsItem := Some (toJSON v) \<rparr>))"

text \<open>getObservations: the \<open>catch\<close> logs the error and returns the empty list.\<close>

definition getObservations :: "storage \<Rightarrow> observation list \<times> storage" where
  "getObservations st =
     (case getItemObservations st of
        (Inr data, st') \<Rightarrow> ((case data of Some xs \<Rightarrow> xs | None \<Rightarrow> []), st')
      | (Inl err, st') \<Rightarrow> ([], st'))"

text \<open>
  getStats: the \<open>catch\<close> logs the error and returns getEmptyStats(). The result is
  what \<open>JSON.parse\<close> has read, or getEmptyStats(), whose numbers are finite and which
  is given here in the same type.
\<close>

definition getStats :: "storage \<Rightarrow> persistedStats \<times> storage" where
  "getStats st =
     (case getItemStats st of
        (Inr data, st') \<Rightarrow> ((case data of Some v \<Rightarrow> v | None \<Rightarrow> toJSON getEmptyStats), st')
      | (Inl err, st') \<Rightarrow> (toJSON getEmptyStats, st'))"

text \<open>
  updateStats: whatever fails inside is caught and logged, nothing is thrown, so the
  result is the store alone.
\<close>

definition updateStats :: "runtime \<Rightarrow> int \<Rightarrow> storage \<Rightarrow> storage" where
  "updateStats rt today st =
     (let (obs, st1) = getObservations st;
          stats = calculateStats rt today obs
      in case setItemStats stats st1 of
           (Inr u, st2) \<Rightarrow> st2
         | (Inl err, st2) \<Rightarrow> st2)"

text \<open>\<open>Array.prototype.findIndex\<close>: the first index where the predicate holds, or -1.\<close>

fun findIndex :: "('a \<Rightarrow> bool) \<Rightarrow> 'a list \<Rightarrow> int" where
  "findIndex P [] = -1"
| "findIndex P (x # xs) =
     (if P x then 0 else (let i = findIndex P xs in if i < 0 then -1 else i + 1))"

text \<open>
  saveObservation. \<open>nowIso\<close> is \<open>new Date().toISOString()\<close> at the call, \<open>today\<close> the
  clock that the recomputation of the stats reads. The \<open>catch\<close> logs and rethrows.
\<close>

definition saveObservation ::
  "runtime \<Rightarrow> string \<Rightarrow> int \<Rightarrow> observation \<Rightarrow> storage \<Rightarrow> (storageError + unit) \<times> storage" where
  "saveObservation rt nowIso today ob st =
     (let (obs, st1) = getObservations st;
          existingIndex = findIndex (\<lambda>x. id' x = id' ob) obs;
          obs' = (if existingIndex \<ge> 0
                  then obs[nat existingIndex := ob \<lparr> updatedAt := nowIso \<rparr>]
                  else obs @ [ob])
      in case setItemObservations obs' st1 of
           (Inl err, st2) \<Rightarrow> (Inl err, st2)
         | (Inr u, st2) \<Rightarrow> (Inr (), updateStats rt today st2))"

definition deleteObservation ::
  "runtime \<Rightarrow> int \<Rightarrow> string \<Rightarrow> storage \<Rightarrow> (storageError + unit) \<times> storage" where
  "deleteObservation rt today observationId st =
     (let (obs, st1) = getObservations st;
          filtered = filter (\<lambda>x. id' x \<noteq> observationId) obs
      in case setItemObservations filtered st1 of
           (Inl err, st2) \<Rightarrow> (Inl err, st2)
         | (Inr u, st2) \<Rightarrow> (Inr (), updateStats rt today st2))"

text \<open>The observation list a store holds (what getObservations returns when no call fails).\<close>

definition storedObservations :: "storage \<Rightarrow> observation list" where
  "storedObservations st = (case observationsItem st of Some xs \<Rightarrow> xs | None \<Rightarrow> [])"

text \<open>None of the next \<open>n\<close> calls of AsyncStorage fails.\<close>

definition noFault :: "nat \<Rightarrow> storage \<Rightarrow> bool" where
  "noFault n st = list_all (\<lambda>f. \<not> f) (take n (faults st))"

text \<open>The call number \<open>n\<close> from now (counted from 0) fails.\<close>

definition failsAt :: "nat \<Rightarrow> storage \<Rightarrow> bool" where
  "failsAt n st = (n < length (faults st) \<and> faults st ! n)"

section \<open>AstronomyService: moon phase and illumination\<close>

text \<open>
  \<open>new Date("2000-01-06").getTime()\<close>: a date-only ISO string is UTC midnight, which is
  947116800000 ms after the epoch.
\<close>

definition baseDate :: int where
  "baseDate = 947116800000"

text \<open>
  The argument is the time value of a (valid) Date. Doubles are idealised as reals.
\<close>

definition getMoonPhase :: "int \<Rightarrow> real" where
  "getMoonPhase d =
     (let daysSince = real_of_int (d - baseDate) / (1000 * 60 * 60 * 24);
          cycle = daysSince / 29.53059;
          phase = cycle - real_of_int \<lfloor>cycle\<rfloor>
      in phase)"

text \<open>\<open>Math.round\<close> rounds to the nearest integer, a tie upwards, as \<open>round\<close> does.\<close>

definition getMoonIllumination :: "int \<Rightarrow> int" where
  "getMoonIllumination d =
     (let phase = getMoonPhase d
      in round (\<bar>cos (phase * 2 * pi)\<bar> * 100))"

section \<open>Best session and favourite shower as the specification words them\<close>

text \<open>
  \<open>a\<close> is a better session than \<open>b\<close>: more meteors, or as many and a higher rating.
\<close>

definition beats :: "observation \<Rightarrow> observation \<Rightarrow> bool" where
  "beats a b =
     (meteorsCount (observations a) > meteorsCount (observations b) \<or>
      (meteorsCount (observations a) = meteorsCount (observations b) \<and> rating a > rating b))"

definition groupOf :: "string \<Rightarrow> observation list \<Rightarrow> observation list" where
  "groupOf sid obs = filter (\<lambda>ob. showerId ob = sid) obs"

text \<open>
  The member at index \<open>i\<close> of the group \<open>g\<close> is its best session: no member is better,
  and it is better than every member before it (so it is the first of the best).
\<close>

definition bestAt :: "observation list \<Rightarrow> nat \<Rightarrow> bool" where
  "bestAt g i =
     (i < length g \<and> list_all (\<lambda>b. \<not> beats b (g ! i)) g \<and>
      list_all (\<lambda>b. beats (g ! i) b) (take i g))"

definition groupSize :: "observation list \<Rightarrow> string \<Rightarrow> nat" where
  "groupSize obs sid = length (groupOf sid obs)"

text \<open>
  The shower of the observation at index \<open>i\<close> is the favourite: no shower has more
  observations, and the shower of every observation before index \<open>i\<close> has fewer (so
  among the showers with the most observations it is the one that appears first).
\<close>

definition favoriteAt :: "observation list \<Rightarrow> nat \<Rightarrow> bool" where
  "favoriteAt obs i =
     (i < length obs \<and>
      list_all (\<lambda>b. groupSize obs (showerId b) \<le> groupSize obs (showerId (obs ! i))) obs \<and>
      list_all (\<lambda>b. groupSize obs (showerId b) < groupSize obs (showerId (obs ! i))) (take i obs))"

section \<open>Session durations without rollover\<close>

text \<open>Both clock times of the session parse on the session's date.\<close>

definition timesValid :: "runtime \<Rightarrow> observation \<Rightarrow> bool" where
  "timesValid rt ob =
     (getTime rt (date ob @ ''T'' @ startTime ob) \<noteq> None \<and>
      getTime rt (date ob @ ''T'' @ endTime ob) \<noteq> None)"

text \<open>
  The plain difference of end and start in hours, both taken on the session's date:
  negative when the end is the earlier one.
\<close>

definition plainHours :: "runtime \<Rightarrow> observation \<Rightarrow> real" where
  "plainHours rt ob =
     (case (getTime rt (date ob @ ''T'' @ startTime ob),
            getTime rt (date ob @ ''T'' @ endTime ob)) of
        (Some s, Some e) \<Rightarrow> (real_of_int e - real_of_int s) / 3600000
      | _ \<Rightarrow> 0)"

section \<open>The cache and the statistics\<close>




section \<open>Streaks as the specification words them\<close>

definition msPerDay :: int where
  "msPerDay = 86400000"

text \<open>Two dates (time values) are at most seven days apart.\<close>

definition apart7 :: "int \<Rightarrow> int \<Rightarrow> bool" where
  "apart7 a b = (\<bar>b - a\<bar> \<le> 7 * msPerDay)"

text \<open>
  The maximal runs of a list of dates: the list is cut between two neighbours exactly
  where they are more than seven days apart.
\<close>

fun runs :: "int list \<Rightarrow> int list list" where
  "runs [] = []"
| "runs [d] = [[d]]"
| "runs (d # e # ds) =
     (if apart7 d e
      then (case runs (e # ds) of r # rs \<Rightarrow> (d # r) # rs | [] \<Rightarrow> [[d]])
      else [d] # runs (e # ds))"

definition maxLength :: "'a list list \<Rightarrow> nat" where
  "maxLength rs = foldr max (map length rs) 0"

text \<open>The dates of the observations, where every one of them is a valid date.\<close>

definition validDates :: "runtime \<Rightarrow> observation list \<Rightarrow> int list \<Rightarrow> bool" where
  "validDates rt obs ds = (map (\<lambda>ob. getTime rt (date ob)) obs = map Some ds)"

section \<open>A concrete runtime: ISO strings, time zone UTC\<close>

text \<open>
  The examples run on this instance of the runtime. It reads the two forms of the
  ECMAScript date-time string format the application stores: a date \<open>YYYY-MM-DD\<close>
  (UTC midnight of that day) and a date with a clock time \<open>YYYY-MM-DDTHH:MM\<close> (local
  time, here in the zone UTC). Every other string is an Invalid Date.
\<close>

definition isLeap :: "int \<Rightarrow> bool" where
  "isLeap y = (y mod 4 = 0 \<and> (y mod 100 \<noteq> 0 \<or> y mod 400 = 0))"

definition daysInMonth :: "int \<Rightarrow> int \<Rightarrow> int" where
  "daysInMonth y m =
     (if m = 2 then (if isLeap y then 29 else 28)
      else if m = 4 \<or> m = 6 \<or> m = 9 \<or> m = 11 then 30 else 31)"

text \<open>The number of days from 1970-01-01 to the day \<open>d\<close> of month \<open>m\<close> of year \<open>y\<close>.\<close>

definition daysFromCivil :: "int \<Rightarrow> int \<Rightarrow> int \<Rightarrow> int" where
  "daysFromCivil y m d =
     (let y' = (if m \<le> 2 then y - 1 else y);
          era = y' div 400;
          yoe = y' - era * 400;
          doy = (153 * (if m > 2 then m - 3 else m + 9) + 2) div 5 + d - 1;
          doe = yoe * 365 + yoe div 4 - yoe div 100 + doy
      in era * 146097 + doe - 719468)"

text \<open>Year, month and day of a string \<open>YYYY-MM-DD\<close> that names a day of the calendar.\<close>

definition isoFields :: "string \<Rightarrow> (int \<times> int \<times> int) option" where
  "isoFields s =
     (case s of
        [y1, y2, y3, y4, CHR ''-'', m1, m2, CHR ''-'', d1, d2] \<Rightarrow>
          (case (digits 0 [y1, y2, y3, y4], digits 0 [m1, m2], digits 0 [d1, d2]) of
             (Some y, Some m, Some d) \<Rightarrow>
               if 1 \<le> m \<and> m \<le> 12 \<and> 1 \<le> d \<and> d \<le> daysInMonth y m
               then Some (y, m, d) else None
           | _ \<Rightarrow> None)
      | _ \<Rightarrow> None)"

definition isoDate :: "string \<Rightarrow> int option" where
  "isoDate s =
     (case isoFields s of
        Some (y, m, d) \<Rightarrow> Some (daysFromCivil y m d * msPerDay)
      | None \<Rightarrow> None)"

text \<open>The milliseconds since midnight of a clock time \<open>HH:MM\<close>.\<close>

definition isoClock :: "string \<Rightarrow> int option" where
  "isoClock s =
     (case s of
        [h1, h2, CHR '':'', m1, m2] \<Rightarrow>
          (case (digits 0 [h1, h2], digits 0 [m1, m2]) of
             (Some h, Some m) \<Rightarrow>
               if h \<le> 23 \<and> m \<le> 59 then Some ((h * 60 + m) * 60000) else None
           | _ \<Rightarrow> None)
      | _ \<Rightarrow> None)"

definition utcGetTime :: "string \<Rightarrow> int option" where
  "utcGetTime s =
     (if length s = 10 then isoDate s
      else if length s = 16 \<and> s ! 10 = CHR ''T'' then
        (case (isoDate (take 10 s), isoClock (drop 11 s)) of
           (Some d, Some t) \<Rightarrow> Some (d + t)
         | _ \<Rightarrow> None)
      else None)"

definition monthName :: "int \<Rightarrow> string" where
  "monthName m =
     (if m = 1 then ''January'' else if m = 2 then ''February'' else if m = 3 then ''March''
      else if m = 4 then ''April'' else if m = 5 then ''May'' else if m = 6 then ''June''
      else if m = 7 then ''July'' else if m = 8 then ''August'' else if m = 9 then ''September''
      else if m = 10 then ''October'' else if m = 11 then ''November'' else ''December'')"

definition utcMonthLabel :: "string \<Rightarrow> string" where
  "utcMonthLabel s =
     (case isoFields (take 10 s) of
        Some (y, m, d) \<Rightarrow> monthName m @ '' '' @ dropWhile (\<lambda>c. c = CHR ''0'') (take 4 s)
      | None \<Rightarrow> ''Invalid Date'')"

definition utcRuntime :: runtime where
  "utcRuntime = \<lparr> getTime = utcGetTime, monthLabel = utcMonthLabel \<rparr>"

text \<open>An observation with the given shower, date, clock times, meteor count and rating.\<close>

definition mkObs ::
  "string \<Rightarrow> string \<Rightarrow> string \<Rightarrow> string \<Rightarrow> string \<Rightarrow> int \<Rightarrow> int \<Rightarrow> observation" where
  "mkObs i sh d st en n r =
     \<lparr> id' = i, showerId = sh, showerName = sh, date = d, startTime = st, endTime = en,
       observations = \<lparr> meteorsCount = n, fireballs = 0, colorsSeen = [] \<rparr>,
       notes' = [], rating = r, createdAt = ''2025-01-01T00:00:00.000Z'',
       updatedAt = ''2025-01-01T00:00:00.000Z'' \<rparr>"

section \<open>Streaks: the loop computes the runs\<close>

lemma withinWeek_Some: "withinWeek (Some x) (Some y) = (y - x \<le> 7 * msPerDay)"
  by (simp add: withinWeek_def msPerDay_def divide_le_eq) linarith

lemma apart7_sorted: "a \<le> b \<Longrightarrow> apart7 a b = (b - a \<le> 7 * msPerDay)"
  by (simp add: apart7_def)

lemma runs_neq_Nil: "runs (d # ds) \<noteq> []"
  by (induction ds arbitrary: d) (auto split: list.splits)

lemma runs_hd_neq_Nil: "hd (runs (d # ds)) \<noteq> []"
  by (induction ds arbitrary: d) (auto split: list.splits)

text \<open>The runs are a cutting of the list: put together again they give it back.\<close>

lemma concat_runs: "concat (runs ds) = ds"
  by (induction ds rule: runs.induct) (auto split: list.splits)

text \<open>
  They are the maximal runs: no run is empty, inside a run neighbours are at most seven
  days apart, and between two runs the neighbours are more than seven days apart.
\<close>

lemma runs_hd: "\<exists>r rs. runs (d # ds) = (d # r) # rs"
  by (induction ds arbitrary: d) (auto split: list.splits)

lemma runs_no_empty: "[] \<notin> set (runs ds)"
  by (induction ds rule: runs.induct) (auto split: list.splits)

lemma runs_inside: "r \<in> set (runs ds) \<Longrightarrow> successively apart7 r"
proof (induction ds arbitrary: r rule: runs.induct)
  case 1
  then show ?case by simp
next
  case (2 d)
  then show ?case by simp
next
  case (3 d e ds)
  obtain r' rs where rr: "runs (e # ds) = (e # r') # rs" using runs_hd by blast
  show ?case
  proof (cases "apart7 d e")
    case True
    with 3 rr show ?thesis by auto
  next
    case False
    with 3 rr show ?thesis by auto
  qed
qed

lemma runs_between: "successively (\<lambda>r s. \<not> apart7 (last r) (hd s)) (runs ds)"
proof (induction ds rule: runs.induct)
  case 1
  then show ?case by simp
next
  case (2 d)
  then show ?case by simp
next
  case (3 d e ds)
  obtain r' rs where rr: "runs (e # ds) = (e # r') # rs" using runs_hd by blast
  show ?case
  proof (cases "apart7 d e")
    case True
    with 3 rr show ?thesis by (cases rs) auto
  next
    case False
    with 3 rr show ?thesis by auto
  qed
qed

lemma maxLength_Cons: "maxLength (r # rs) = max (length r) (maxLength rs)"
  by (simp add: maxLength_def)

text \<open>
  The invariant of the loop. With \<open>Suc k\<close> observations of the current run read so far,
  the last of them at the head of the list, the loop ends with \<open>tempStreak\<close> the
  length of the last run (plus \<open>k\<close> when the current run is the last one), and the
  maximum of both variables is the maximum of the old \<open>longestStreak\<close> and all runs.
\<close>

lemma streakLoop_runs:
  "validDates rt obs (d # ds) \<Longrightarrow> sorted (d # ds) \<Longrightarrow>
   streakLoop rt obs (Suc k, l) = (T, L) \<Longrightarrow>
     T = length (last (runs (d # ds))) + (if length (runs (d # ds)) = 1 then k else 0) \<and>
     max L T = max l (max (k + length (hd (runs (d # ds)))) (maxLength (tl (runs (d # ds)))))"
proof (induction ds arbitrary: obs d k l)
  case Nil
  then show ?case by (cases obs) (auto simp: validDates_def maxLength_def)
next
  case (Cons e ds)
  from Cons.prems(1) obtain p c obs' where obs: "obs = p # c # obs'"
    and p: "getTime rt (date p) = Some d" and c: "getTime rt (date c) = Some e"
    and v: "validDates rt (c # obs') (e # ds)"
    by (auto simp: validDates_def)
  from Cons.prems(2) have le: "d \<le> e" and s: "sorted (e # ds)" by auto
  obtain r rs where rr: "runs (e # ds) = r # rs"
    using runs_neq_Nil[of e ds] by (cases "runs (e # ds)") auto
  show ?case
  proof (cases "apart7 d e")
    case True
    then have w: "withinWeek (Some d) (Some e)"
      using le by (simp add: withinWeek_Some apart7_sorted)
    from Cons.prems(3) have "streakLoop rt (c # obs') (Suc (Suc k), l) = (T, L)"
      using w p c obs by simp
    from Cons.IH[OF v s this] show ?thesis
      using True rr by (auto simp: maxLength_Cons)
  next
    case False
    then have w: "\<not> withinWeek (Some d) (Some e)"
      using le by (simp add: withinWeek_Some apart7_sorted)
    from Cons.prems(3) have "streakLoop rt (c # obs') (Suc 0, max l (Suc k)) = (T, L)"
      using w p c obs by simp
    note ih = Cons.IH[OF v s this]
    have T: "T = length (last (r # rs))"
      using conjunct1[OF ih] rr by simp
    have M: "max L T = max (max l (Suc k)) (max (length r) (maxLength rs))"
      using conjunct2[OF ih] rr by simp
    have r1: "runs (d # e # ds) = [d] # r # rs" using False rr by simp
    have "max L T = max l (max (Suc k) (maxLength (r # rs)))"
      using M by (simp add: maxLength_Cons max.assoc)
    then show ?thesis using T r1 by simp
  qed
qed

lemma validDates_last:
  assumes v: "validDates rt obs ds" and ne: "ds \<noteq> []"
  shows "getTime rt (date (last obs)) = Some (last ds)"
proof -
  have one: "obs \<noteq> []" using v ne by (auto simp: validDates_def)
  have "last (map (\<lambda>ob. getTime rt (date ob)) obs) = last (map Some ds)"
    using v by (simp add: validDates_def)
  then show ?thesis using one ne by (simp add: last_map)
qed

lemma maxLength_runs:
  "maxLength (runs (d # ds)) =
     max 1 (max (length (hd (runs (d # ds)))) (maxLength (tl (runs (d # ds)))))"
proof -
  obtain r rs where rr: "runs (d # ds) = r # rs"
    using runs_neq_Nil[of d ds] by (cases "runs (d # ds)") auto
  have "r \<noteq> []" using runs_hd_neq_Nil[of d ds] rr by simp
  then have "1 \<le> length r" by (cases r) auto
  then show ?thesis using rr by (simp add: maxLength_Cons)
qed

text \<open>
  C1. For observations with valid dates \<open>ds\<close> in ascending order and every evaluation
  time \<open>now\<close>, calculateStreaks returns as longestStreak the length of the longest
  maximal run of observations whose successive dates are at most 7 days apart, and as
  currentStreak the length of the last run when at most 7 days have passed from the last
  date to \<open>now\<close>, and 0 otherwise. For the empty list both are 0; for a single
  observation longestStreak is 1 and currentStreak is 1 or 0.
\<close>

theorem calculateStreaks_runs:
  assumes "validDates rt obs ds" and "sorted ds"
  shows "calculateStreaks rt now obs =
           (if ds \<noteq> [] \<and> now - last ds \<le> 7 * msPerDay then length (last (runs ds)) else 0,
            maxLength (runs ds))"
proof (cases ds)
  case Nil
  then have "obs = []" using assms(1) by (simp add: validDates_def)
  then show ?thesis using Nil by (simp add: calculateStreaks_def maxLength_def)
next
  case (Cons d ds')
  then have ne: "obs \<noteq> []" using assms(1) by (auto simp: validDates_def)
  obtain T L where loop: "streakLoop rt obs (Suc 0, 1) = (T, L)"
    by (cases "streakLoop rt obs (Suc 0, 1)") auto
  note inv = streakLoop_runs[OF assms(1)[unfolded Cons] assms(2)[unfolded Cons] loop]
  have T: "T = length (last (runs ds))" using conjunct1[OF inv] Cons by simp
  have "max L T = max 1 (max (length (hd (runs (d # ds')))) (maxLength (tl (runs (d # ds')))))"
    using conjunct2[OF inv] by simp
  then have M: "max L T = maxLength (runs ds)"
    using maxLength_runs[of d ds'] Cons by simp
  have lastd: "getTime rt (date (last obs)) = Some (last ds)"
    using validDates_last[OF assms(1)] Cons by simp
  show ?thesis
    using ne loop T M lastd Cons
    by (simp add: calculateStreaks_def withinWeek_Some)
qed

text \<open>The definitions that evaluate the concrete runtime on a literal string.\<close>

lemmas runtime_simps = utcRuntime_def mkObs_def utcGetTime_def isoDate_def isoFields_def
  isoClock_def digit_def daysFromCivil_def daysInMonth_def isLeap_def msPerDay_def

text \<open>
  The example of the specification: observations on 2025-01-01, 2025-01-05 and
  2025-01-20 have the runs of lengths 2 and 1, so longestStreak is 2; currentStreak is 0
  on 2025-03-01 and 1 (the last run) on 2025-01-21. The empty list gives \<open>(0, 0)\<close>,
  and the single observation of 2025-01-20 gives \<open>(1, 1)\<close> on 2025-01-21 and
  \<open>(0, 1)\<close> on 2025-03-01.
\<close>

theorem calculateStreaks_runs_witness:
  "validDates utcRuntime
      [mkObs ''o1'' ''perseids'' ''2025-01-01'' ''21:00'' ''23:00'' 10 5,
       mkObs ''o2'' ''perseids'' ''2025-01-05'' ''21:00'' ''23:00'' 10 5,
       mkObs ''o3'' ''perseids'' ''2025-01-20'' ''21:00'' ''23:00'' 10 5]
      [1735689600000, 1736035200000, 1737331200000]
   \<and> sorted [1735689600000, 1736035200000, 1737331200000 :: int]
   \<and> utcGetTime ''2025-03-01'' = Some 1740787200000
   \<and> calculateStreaks utcRuntime 1740787200000
      [mkObs ''o1'' ''perseids'' ''2025-01-01'' ''21:00'' ''23:00'' 10 5,
       mkObs ''o2'' ''perseids'' ''2025-01-05'' ''21:00'' ''23:00'' 10 5,
       mkObs ''o3'' ''perseids'' ''2025-01-20'' ''21:00'' ''23:00'' 10 5] = (0, 2)
   \<and> utcGetTime ''2025-01-21'' = Some 1737417600000
   \<and> calculateStreaks utcRuntime 1737417600000
      [mkObs ''o1'' ''perseids'' ''2025-01-01'' ''21:00'' ''23:00'' 10 5,
       mkObs ''o2'' ''perseids'' ''2025-01-05'' ''21:00'' ''23:00'' 10 5,
       mkObs ''o3'' ''perseids'' ''2025-01-20'' ''21:00'' ''23:00'' 10 5] = (1, 2)
   \<and> calculateStreaks utcRuntime 1737417600000 [] = (0, 0)
   \<and> validDates utcRuntime
      [mkObs ''o3'' ''perseids'' ''2025-01-20'' ''21:00'' ''23:00'' 10 5] [1737331200000]
   \<and> calculateStreaks utcRuntime 1737417600000
      [mkObs ''o3'' ''perseids'' ''2025-01-20'' ''21:00'' ''23:00'' 10 5] = (1, 1)
   \<and> calculateStreaks utcRuntime 1740787200000
      [mkObs ''o3'' ''perseids'' ''2025-01-20'' ''21:00'' ''23:00'' 10 5] = (0, 1)"
proof -
  have v: "validDates utcRuntime
      [mkObs ''o1'' ''perseids'' ''2025-01-01'' ''21:00'' ''23:00'' 10 5,
       mkObs ''o2'' ''perseids'' ''2025-01-05'' ''21:00'' ''23:00'' 10 5,
       mkObs ''o3'' ''perseids'' ''2025-01-20'' ''21:00'' ''23:00'' 10 5]
      [1735689600000, 1736035200000, 1737331200000]"
    by (simp add: validDates_def runtime_simps)
  have s: "sorted [1735689600000, 1736035200000, 1737331200000 :: int]" by simp
  have v0: "validDates utcRuntime [] []" by (simp add: validDates_def)
  have v1: "validDates utcRuntime
      [mkObs ''o3'' ''perseids'' ''2025-01-20'' ''21:00'' ''23:00'' 10 5] [1737331200000]"
    by (simp add: validDates_def runtime_simps)
  have s1: "sorted [1737331200000 :: int]" by simp
  have s0: "sorted ([] :: int list)" by simp
  have t1: "utcGetTime ''2025-03-01'' = Some 1740787200000" by (simp add: runtime_simps)
  have t2: "utcGetTime ''2025-01-21'' = Some 1737417600000" by (simp add: runtime_simps)
  show ?thesis
    using v s t1 t2 v1 calculateStreaks_runs[OF v s, of 1740787200000]
      calculateStreaks_runs[OF v s, of 1737417600000]
      calculateStreaks_runs[OF v0 s0, of 1737417600000]
      calculateStreaks_runs[OF v1 s1, of 1737417600000]
      calculateStreaks_runs[OF v1 s1, of 1740787200000]
    by (simp add: apart7_def msPerDay_def maxLength_def)
qed

section \<open>The empty log\<close>

text \<open>
  C5. calculateStats of the empty observation list is the zero record: all counts and
  totals 0, averageRating 0, favoriteShower the empty string, longestSession 0, both
  streaks 0, and monthlyStats and showerStats without a key.
\<close>

theorem calculateStats_empty:
  "totalObservations (calculateStats rt today []) = 0 \<and>
   totalMeteors (calculateStats rt today []) = 0 \<and>
   totalHours (calculateStats rt today []) = Num 0 \<and>
   averageRating (calculateStats rt today []) = 0 \<and>
   favoriteShower (calculateStats rt today []) = [] \<and>
   longestSession (calculateStats rt today []) = Num 0 \<and>
   currentStreak (calculateStats rt today []) = 0 \<and>
   longestStreak (calculateStats rt today []) = 0 \<and>
   monthlyStats (calculateStats rt today []) = [] \<and>
   showerStats (calculateStats rt today []) = []"
  by (simp add: calculateStats_def getEmptyStats_def)

section \<open>Moon illumination\<close>

lemma illumination_range:
  "0 \<le> round (\<bar>cos (x::real)\<bar> * 100) \<and> round (\<bar>cos x\<bar> * 100) \<le> 100"
proof -
  have "\<bar>cos x\<bar> \<le> 1" by simp
  then have a: "\<bar>cos x\<bar> * 100 \<le> 100" by simp
  have b: "0 \<le> \<bar>cos x\<bar> * 100" by simp
  have "round (\<bar>cos x\<bar> * 100) \<le> round (100::real)" using a by (rule round_mono)
  moreover have "round (0::real) \<le> round (\<bar>cos x\<bar> * 100)" using b by (rule round_mono)
  ultimately show ?thesis by simp
qed

text \<open>
  C9. For every date, getMoonIllumination is \<open>round (|cos (phase * 2 * pi)| * 100)\<close> of
  the date's getMoonPhase and lies between 0 and 100. The anchor date 2000-01-06 has the
  time value \<open>baseDate\<close>; there the phase is 0 and the illumination 100.
\<close>

theorem moonIllumination_formula:
  "getMoonIllumination d = round (\<bar>cos (getMoonPhase d * 2 * pi)\<bar> * 100) \<and>
   0 \<le> getMoonIllumination d \<and> getMoonIllumination d \<le> 100 \<and>
   utcGetTime ''2000-01-06'' = Some baseDate \<and>
   getMoonPhase baseDate = 0 \<and> getMoonIllumination baseDate = 100"
proof -
  have p0: "getMoonPhase baseDate = 0" by (simp add: getMoonPhase_def)
  have i0: "getMoonIllumination baseDate = 100"
    by (simp add: getMoonIllumination_def p0)
  have b: "utcGetTime ''2000-01-06'' = Some baseDate"
    by (simp add: runtime_simps baseDate_def)
  show ?thesis
    using p0 i0 b illumination_range[of "getMoonPhase d * 2 * pi"]
    by (simp add: getMoonIllumination_def Let_def)
qed

section \<open>calculateStats: fields and sums\<close>

lemma length_insertByDate: "length (insertByDate rt x ys) = Suc (length ys)"
  by (induction ys) auto

lemma length_sortByDate: "length (sortByDate rt obs) = length obs"
  by (induction obs) (auto simp: sortByDate_def length_insertByDate)

lemma stats_fields:
  assumes "obs \<noteq> []"
  shows stats_count: "totalObservations (calculateStats rt today obs) = length obs"
    and stats_meteors: "totalMeteors (calculateStats rt today obs) =
          foldl (\<lambda>sum ob. sum + meteorsCount (observations ob)) 0 obs"
    and stats_hours: "totalHours (calculateStats rt today obs) =
          foldl (\<lambda>sum ob. jsAdd sum (sessionHours rt ob)) (Num 0) obs"
    and stats_longest: "longestSession (calculateStats rt today obs) =
          mathMax (map (sessionHours rt) (sortByDate rt obs))"
    and stats_months: "monthlyStats (calculateStats rt today obs) = foldl (monthStep rt) [] obs"
    and stats_showers: "showerStats (calculateStats rt today obs) =
          withAverages obs (foldl showerStep [] obs)"
    and stats_favorite: "favoriteShower (calculateStats rt today obs) =
          pickFavorite (withAverages obs (foldl showerStep [] obs))"
  using assms
  by (simp_all add: calculateStats_def Let_def length_sortByDate split: prod.split)

lemma sum_replaceProp:
  fixes f :: "'v \<Rightarrow> 'a::comm_monoid_add"
  assumes "f v = (case map_of ps k of None \<Rightarrow> 0 | Some w \<Rightarrow> f w) + c"
    and "k \<in> fst ` set ps"
  shows "sum_list (map (\<lambda>p. f (snd p)) (replaceProp k v ps)) =
         sum_list (map (\<lambda>p. f (snd p)) ps) + c"
  using assms
proof (induction ps)
  case Nil
  then show ?case by simp
next
  case (Cons p ps)
  obtain k' v' where p: "p = (k', v')" by (cases p)
  show ?case
  proof (cases "k' = k")
    case True
    then show ?thesis using Cons.prems(1) by (simp add: p ac_simps)
  next
    case False
    then have "k \<in> fst ` set ps" and "f v = (case map_of ps k of None \<Rightarrow> 0 | Some w \<Rightarrow> f w) + c"
      using Cons.prems by (auto simp: p)
    then show ?thesis using Cons.IH False by (simp add: p ac_simps)
  qed
qed

lemma sum_insertProp:
  fixes f :: "'v \<Rightarrow> 'a::comm_monoid_add"
  shows "sum_list (map (\<lambda>p. f (snd p)) (insertProp k v ps)) =
         sum_list (map (\<lambda>p. f (snd p)) ps) + f v"
  by (induction ps) (auto simp: ac_simps)

lemma sum_setProp:
  fixes f :: "'v \<Rightarrow> 'a::comm_monoid_add"
  assumes "f v = (case map_of ps k of None \<Rightarrow> 0 | Some w \<Rightarrow> f w) + c"
  shows "sum_list (map (\<lambda>p. f (snd p)) (setProp k v ps)) = sum_list (map (\<lambda>p. f (snd p)) ps) + c"
proof (cases "k \<in> fst ` set ps")
  case True
  then show ?thesis using sum_replaceProp[OF assms True] by (simp add: setProp_def)
next
  case False
  then have "map_of ps k = None" by (simp add: map_of_eq_None_iff)
  then have "f v = c" using assms by simp
  then show ?thesis using False sum_insertProp[of f k v ps] by (simp add: setProp_def)
qed

lemma keys_replaceProp: "keys (replaceProp k v ps) = keys ps"
  by (induction ps) (auto simp: keys_def)

lemma set_keys_insertProp: "set (keys (insertProp k v ps)) = insert k (set (keys ps))"
  by (induction ps) (force simp: keys_def)+

lemma distinct_insertProp:
  "k \<notin> set (keys ps) \<Longrightarrow> distinct (keys ps) \<Longrightarrow> distinct (keys (insertProp k v ps))"
proof (induction ps)
  case Nil
  then show ?case by (simp add: keys_def)
next
  case (Cons p ps)
  obtain k' v' where p: "p = (k', v')" by (cases p)
  from Cons.prems have k: "k \<notin> set (keys ps)" "k \<noteq> k'"
    and d: "distinct (keys ps)" "k' \<notin> set (keys ps)"
    by (auto simp: keys_def p)
  have "set (keys (insertProp k v ps)) = insert k (set (keys ps))"
    by (rule set_keys_insertProp)
  then have "k' \<notin> set (keys (insertProp k v ps))" using k(2) d(2) by auto
  then show ?case using Cons.IH[OF k(1) d(1)] Cons.prems
    by (auto simp: keys_def p)
qed

lemma keys_insertProp_end: "arrayIndex k = None \<Longrightarrow> keys (insertProp k v ps) = keys ps @ [k]"
  by (induction ps) (auto simp: keys_def precedes_def)

text \<open>A key that is not an array index keeps its place or is appended.\<close>

lemma set_keys: "set (keys ps) = fst ` set ps"
  by (simp add: keys_def)

lemma keys_setProp:
  "arrayIndex k = None \<Longrightarrow>
   keys (setProp k v ps) = (if k \<in> set (keys ps) then keys ps else keys ps @ [k])"
  by (simp add: setProp_def keys_replaceProp keys_insertProp_end set_keys)

lemma set_keys_setProp: "set (keys (setProp k v ps)) = insert k (set (keys ps))"
proof (cases "k \<in> fst ` set ps")
  case True
  then have "k \<in> set (keys ps)" by (simp add: set_keys)
  then show ?thesis using True by (auto simp: setProp_def keys_replaceProp)
next
  case False
  then show ?thesis by (simp add: setProp_def set_keys_insertProp)
qed

lemma distinct_setProp: "distinct (keys ps) \<Longrightarrow> distinct (keys (setProp k v ps))"
proof (cases "k \<in> fst ` set ps")
  case True
  assume "distinct (keys ps)"
  then show ?thesis using True by (simp add: setProp_def keys_replaceProp)
next
  case False
  assume d: "distinct (keys ps)"
  from False have "k \<notin> set (keys ps)" by (simp add: set_keys)
  from distinct_insertProp[OF this d] show ?thesis using False by (simp add: setProp_def)
qed

lemma sum_monthStep:
  "sum_list (map snd (monthStep rt ms ob)) = sum_list (map snd ms) + 1"
  unfolding monthStep_def Let_def
  by (rule sum_setProp[where f = "\<lambda>c. c"]) (simp split: option.splits)

lemma sum_months: "sum_list (map snd (foldl (monthStep rt) ms obs)) = sum_list (map snd ms) + length obs"
  by (induction obs arbitrary: ms) (simp_all add: sum_monthStep)

lemma distinct_months: "distinct (keys ms) \<Longrightarrow> distinct (keys (foldl (monthStep rt) ms obs))"
  by (induction obs arbitrary: ms) (simp_all add: monthStep_def Let_def distinct_setProp)

lemma count_showerStep:
  "sum_list (map (\<lambda>p. sh_observations (snd p)) (showerStep ss ob)) =
   sum_list (map (\<lambda>p. sh_observations (snd p)) ss) + 1"
  unfolding showerStep_def Let_def
  by (rule sum_setProp[where f = sh_observations]) (simp split: option.splits)

lemma meteors_showerStep:
  "sum_list (map (\<lambda>p. sh_totalMeteors (snd p)) (showerStep ss ob)) =
   sum_list (map (\<lambda>p. sh_totalMeteors (snd p)) ss) + meteorsCount (observations ob)"
  unfolding showerStep_def Let_def
  by (rule sum_setProp[where f = sh_totalMeteors]) (simp split: option.splits)

lemma count_showers:
  "sum_list (map (\<lambda>p. sh_observations (snd p)) (foldl showerStep ss obs)) =
   sum_list (map (\<lambda>p. sh_observations (snd p)) ss) + length obs"
  by (induction obs arbitrary: ss) (simp_all add: count_showerStep)

lemma meteors_showers:
  "sum_list (map (\<lambda>p. sh_totalMeteors (snd p)) (foldl showerStep ss obs)) =
   sum_list (map (\<lambda>p. sh_totalMeteors (snd p)) ss) +
   sum_list (map (\<lambda>ob. meteorsCount (observations ob)) obs)"
  by (induction obs arbitrary: ss) (simp_all add: meteors_showerStep)

lemma distinct_showers: "distinct (keys ss) \<Longrightarrow> distinct (keys (foldl showerStep ss obs))"
  by (induction obs arbitrary: ss) (simp_all add: showerStep_def Let_def distinct_setProp)

lemma foldl_meteors:
  "foldl (\<lambda>sum ob. sum + meteorsCount (observations ob)) a obs =
   a + sum_list (map (\<lambda>ob. meteorsCount (observations ob)) obs)"
  by (induction obs arbitrary: a) simp_all

lemma withAverages_count:
  "map (\<lambda>p. sh_observations (snd p)) (withAverages obs ss) = map (\<lambda>p. sh_observations (snd p)) ss"
  by (simp add: withAverages_def Let_def case_prod_beta)

lemma withAverages_meteors:
  "map (\<lambda>p. sh_totalMeteors (snd p)) (withAverages obs ss) = map (\<lambda>p. sh_totalMeteors (snd p)) ss"
  by (simp add: withAverages_def Let_def case_prod_beta)

lemma withAverages_keys: "keys (withAverages obs ss) = keys ss"
  by (simp add: withAverages_def keys_def case_prod_beta)

text \<open>
  C10. The stats of every observation list are consistent: the counts of monthlyStats add
  up to totalObservations, the observation counts of the groups of showerStats add up to
  totalObservations, and their meteor totals add up to totalMeteors. (No key occurs
  twice in either object, so the sums over the lists are the sums over the mappings.)
\<close>

theorem stats_consistent:
  "sum_list (map snd (monthlyStats (calculateStats rt today obs))) =
     totalObservations (calculateStats rt today obs) \<and>
   sum_list (map (\<lambda>p. sh_observations (snd p)) (showerStats (calculateStats rt today obs))) =
     totalObservations (calculateStats rt today obs) \<and>
   sum_list (map (\<lambda>p. sh_totalMeteors (snd p)) (showerStats (calculateStats rt today obs))) =
     totalMeteors (calculateStats rt today obs) \<and>
   distinct (keys (monthlyStats (calculateStats rt today obs))) \<and>
   distinct (keys (showerStats (calculateStats rt today obs)))"
proof (cases "obs = []")
  case True
  then show ?thesis by (simp add: calculateStats_def getEmptyStats_def keys_def)
next
  case False
  have d0: "distinct (keys ([] :: nat object))" "distinct (keys ([] :: showerStat object))"
    by (simp_all add: keys_def)
  show ?thesis
    using sum_months[of rt "[]" obs] count_showers[of "[]" obs] meteors_showers[of "[]" obs]
      distinct_months[OF d0(1), of rt obs] distinct_showers[OF d0(2), of obs]
    by (simp add: stats_fields[OF False] withAverages_count withAverages_meteors
        withAverages_keys foldl_meteors)
qed

section \<open>Best session of a shower\<close>

lemma map_of_replaceProp_at:
  "map_of (replaceProp k v ps) x =
     (if x = k \<and> k \<in> fst ` set ps then Some v else map_of ps x)"
proof (induction ps)
  case Nil
  then show ?case by simp
next
  case (Cons p ps)
  obtain k' v' where p: "p = (k', v')" by (cases p)
  show ?case
  proof (cases "k' = k")
    case True
    then show ?thesis by (simp add: p)
  next
    case False
    then have "(k \<in> fst ` set (p # ps)) = (k \<in> fst ` set ps)" by (auto simp: p)
    then show ?thesis using False Cons.IH by (cases "x = k") (simp_all add: p)
  qed
qed

lemma map_of_replaceProp:
  "k \<in> fst ` set ps \<Longrightarrow> map_of (replaceProp k v ps) = (map_of ps)(k \<mapsto> v)"
  by (simp add: fun_eq_iff map_of_replaceProp_at)

lemma map_of_insertProp:
  "k \<notin> fst ` set ps \<Longrightarrow> map_of (insertProp k v ps) = (map_of ps)(k \<mapsto> v)"
  by (induction ps) (auto simp: fun_eq_iff)

lemma map_of_setProp: "map_of (setProp k v ps) = (map_of ps)(k \<mapsto> v)"
  by (simp add: setProp_def map_of_replaceProp map_of_insertProp)

lemma beats_irrefl: "\<not> beats a a"
  by (simp add: beats_def)

lemma beats_chain: "\<not> beats b c \<Longrightarrow> beats x c \<Longrightarrow> beats x b"
  by (auto simp: beats_def)

lemma beats_asym: "beats a b \<Longrightarrow> \<not> beats b a"
  by (auto simp: beats_def)

lemma beats_sessionOf:
  "(meteorsCount (observations x) > bs_meteors (sessionOf y) \<or>
    (meteorsCount (observations x) = bs_meteors (sessionOf y) \<and> rating x > bs_rating (sessionOf y)))
   = beats x y"
  by (auto simp: beats_def sessionOf_def)

lemma bestAt_unique: "bestAt g i \<Longrightarrow> bestAt g j \<Longrightarrow> i = j"
proof (rule ccontr)
  assume a: "bestAt g i" and b: "bestAt g j" and ne: "i \<noteq> j"
  have aux: "\<And>i j. bestAt g i \<Longrightarrow> bestAt g j \<Longrightarrow> i < j \<Longrightarrow> False"
  proof -
    fix i j assume a: "bestAt g i" and b: "bestAt g j" and lt: "i < j"
    have "g ! i \<in> set (take j g)" using lt b by (auto simp: bestAt_def in_set_conv_nth intro!: exI[of _ i])
    then have "beats (g ! j) (g ! i)" using b by (auto simp: bestAt_def list_all_iff)
    moreover have "g ! j \<in> set g" using b by (simp add: bestAt_def)
    then have "\<not> beats (g ! j) (g ! i)" using a by (auto simp: bestAt_def list_all_iff)
    ultimately show False by simp
  qed
  from ne have "i < j \<or> j < i" by auto
  then show False using aux a b by blast
qed

lemma bestAt_single: "bestAt [x] 0"
  by (simp add: bestAt_def beats_irrefl)

lemma bestAt_snoc_new:
  assumes "bestAt g i" and "beats x (g ! i)"
  shows "bestAt (g @ [x]) (length g)"
proof -
  have all: "\<forall>b \<in> set g. \<not> beats b (g ! i)" using assms(1) by (simp add: bestAt_def list_all_iff)
  then have "\<forall>b \<in> set g. beats x b" using assms(2) beats_chain by blast
  then show ?thesis using beats_asym by (auto simp: bestAt_def list_all_iff beats_irrefl)
qed

lemma bestAt_snoc_old:
  assumes "bestAt g i" and "\<not> beats x (g ! i)"
  shows "bestAt (g @ [x]) i"
  using assms by (auto simp: bestAt_def nth_append)

lemma groupOf_snoc: "groupOf s (xs @ [x]) = (if showerId x = s then groupOf s xs @ [x] else groupOf s xs)"
  by (simp add: groupOf_def)

lemma showerStep_other: "showerId x \<noteq> s \<Longrightarrow> map_of (showerStep ss x) s = map_of ss s"
  by (simp add: showerStep_def Let_def map_of_setProp)

lemma showerStep_fresh:
  "map_of ss (showerId x) = None \<Longrightarrow>
   \<exists>st. map_of (showerStep ss x) (showerId x) = Some st \<and> sh_bestSession st = sessionOf x"
  by (simp add: showerStep_def Let_def map_of_setProp sessionOf_def)

lemma showerStep_seen:
  "map_of ss (showerId x) = Some st0 \<Longrightarrow> sh_bestSession st0 = sessionOf y \<Longrightarrow>
   \<exists>st. map_of (showerStep ss x) (showerId x) = Some st \<and>
        sh_bestSession st = (if beats x y then sessionOf x else sessionOf y)"
  by (simp add: showerStep_def Let_def map_of_setProp beats_sessionOf)

lemma showers_best:
  "(map_of (foldl showerStep [] obs) s = None \<longleftrightarrow> groupOf s obs = []) \<and>
   (\<forall>st. map_of (foldl showerStep [] obs) s = Some st \<longrightarrow>
      (\<exists>i. bestAt (groupOf s obs) i \<and> sh_bestSession st = sessionOf (groupOf s obs ! i)))"
proof (induction obs rule: rev_induct)
  case Nil
  then show ?case by (simp add: groupOf_def)
next
  case (snoc x xs)
  let ?ss = "foldl showerStep [] xs"
  let ?g = "groupOf s xs"
  show ?case
  proof (cases "showerId x = s")
    case False
    then show ?thesis using snoc by (simp add: showerStep_other groupOf_snoc)
  next
    case True
    show ?thesis
    proof (cases "map_of ?ss s")
      case None
      then have g: "?g = []" using snoc by simp
      from showerStep_fresh[of ?ss x] None True
      obtain st where "map_of (showerStep ?ss x) s = Some st" "sh_bestSession st = sessionOf x"
        by auto
      then show ?thesis using g True bestAt_single[of x]
        by (auto simp: groupOf_snoc intro!: exI[of _ 0])
    next
      case (Some st0)
      then obtain i where i: "bestAt ?g i" and b: "sh_bestSession st0 = sessionOf (?g ! i)"
        using snoc by auto
      from showerStep_seen[of ?ss x st0 "?g ! i"] Some True b
      obtain st where st: "map_of (showerStep ?ss x) s = Some st"
        and bs: "sh_bestSession st = (if beats x (?g ! i) then sessionOf x else sessionOf (?g ! i))"
        by auto
      have il: "i < length ?g" using i by (simp add: bestAt_def)
      show ?thesis
      proof (cases "beats x (?g ! i)")
        case True
        then show ?thesis
          using st bs bestAt_snoc_new[OF i True] \<open>showerId x = s\<close>
          by (auto simp: groupOf_snoc intro!: exI[of _ "length ?g"])
      next
        case False
        then show ?thesis
          using st bs bestAt_snoc_old[OF i False] il \<open>showerId x = s\<close>
          by (auto simp: groupOf_snoc nth_append intro!: exI[of _ i])
      qed
    qed
  qed
qed

lemma map_of_withAverages:
  "map_of (withAverages obs ss) s = Some st \<Longrightarrow>
   \<exists>st0. map_of ss s = Some st0 \<and> sh_bestSession st = sh_bestSession st0 \<and>
         sh_observations st = sh_observations st0"
  by (induction ss) (auto simp: withAverages_def Let_def split: if_splits)

lemma map_of_withAverages_None:
  "map_of (withAverages obs ss) s = None \<longleftrightarrow> map_of ss s = None"
  by (induction ss) (auto simp: withAverages_def Let_def split: if_splits)


text \<open>
  C3. For every observation list and every shower that appears in it, showerStats has
  an entry for the shower, and its bestSession is the date, meteor count and rating of
  the member of the shower's group that is not beaten by any member and beats every
  member before it: the highest meteor count, then the highest rating, then the first
  in the order of the list.
\<close>

theorem bestSession_first_best:
  assumes "ob \<in> set obs"
  shows "\<exists>st i. map_of (showerStats (calculateStats rt today obs)) (showerId ob) = Some st \<and>
           bestAt (groupOf (showerId ob) obs) i \<and>
           sh_bestSession st = sessionOf (groupOf (showerId ob) obs ! i)"
proof -
  from assms have ne: "obs \<noteq> []" by auto
  from assms have g: "groupOf (showerId ob) obs \<noteq> []"
    by (auto simp: groupOf_def filter_empty_conv)
  let ?ss = "foldl showerStep [] obs"
  from g have "map_of (withAverages obs ?ss) (showerId ob) \<noteq> None"
    using showers_best[of obs "showerId ob"] by (simp add: map_of_withAverages_None)
  then obtain st where st: "map_of (withAverages obs ?ss) (showerId ob) = Some st" by auto
  from map_of_withAverages[OF st] obtain st0 where
    st0: "map_of ?ss (showerId ob) = Some st0" and eq: "sh_bestSession st = sh_bestSession st0"
    by auto
  from st0 obtain i where "bestAt (groupOf (showerId ob) obs) i"
    and "sh_bestSession st0 = sessionOf (groupOf (showerId ob) obs ! i)"
    using showers_best[of obs "showerId ob"] by auto
  then show ?thesis using st eq by (auto simp: stats_showers[OF ne])
qed

text \<open>
  The example of the specification: of two sessions of one shower with 10 meteors and
  rating 5, then 25 meteors and rating 3, the second is the best session.
\<close>

theorem bestSession_first_best_witness:
  "mkObs ''o2'' ''perseids'' ''2025-08-13'' ''21:00'' ''23:00'' 25 3 \<in>
     set [mkObs ''o1'' ''perseids'' ''2025-08-12'' ''21:00'' ''23:00'' 10 5,
          mkObs ''o2'' ''perseids'' ''2025-08-13'' ''21:00'' ''23:00'' 25 3] \<and>
   (\<exists>st. map_of (showerStats (calculateStats utcRuntime 0
            [mkObs ''o1'' ''perseids'' ''2025-08-12'' ''21:00'' ''23:00'' 10 5,
             mkObs ''o2'' ''perseids'' ''2025-08-13'' ''21:00'' ''23:00'' 25 3])) ''perseids'' = Some st \<and>
         sh_bestSession st = \<lparr> bs_date = ''2025-08-13'', bs_meteors = 25, bs_rating = 3 \<rparr>)"
proof -
  let ?o1 = "mkObs ''o1'' ''perseids'' ''2025-08-12'' ''21:00'' ''23:00'' 10 5"
  let ?o2 = "mkObs ''o2'' ''perseids'' ''2025-08-13'' ''21:00'' ''23:00'' 25 3"
  have m: "?o2 \<in> set [?o1, ?o2]" by simp
  have sid: "showerId ?o2 = ''perseids''" by (simp add: mkObs_def)
  have grp: "groupOf ''perseids'' [?o1, ?o2] = [?o1, ?o2]" by (simp add: groupOf_def mkObs_def)
  from bestSession_first_best[OF m, of utcRuntime 0]
  obtain st i where st: "map_of (showerStats (calculateStats utcRuntime 0 [?o1, ?o2])) ''perseids'' = Some st"
    and i: "bestAt [?o1, ?o2] i" and b: "sh_bestSession st = sessionOf ([?o1, ?o2] ! i)"
    unfolding sid grp by blast
  have n0: "\<not> bestAt [?o1, ?o2] 0" by (simp add: bestAt_def beats_def mkObs_def)
  have "i \<noteq> 0"
  proof
    assume "i = 0"
    with i n0 show False by simp
  qed
  moreover have "i < 2" using i by (simp add: bestAt_def)
  ultimately have "i = 1" by simp
  then have "sh_bestSession st = \<lparr> bs_date = ''2025-08-13'', bs_meteors = 25, bs_rating = 3 \<rparr>"
    using b by (simp add: sessionOf_def mkObs_def)
  then show ?thesis using m st by blast
qed

section \<open>Favourite shower\<close>

lemma keys_showerStep:
  "arrayIndex (showerId x) = None \<Longrightarrow>
   keys (showerStep ss x) = (if showerId x \<in> set (keys ss) then keys ss else keys ss @ [showerId x])"
  by (simp add: showerStep_def Let_def keys_setProp)

lemma keys_showerStep_set:
  "set (keys (showerStep ss x)) = insert (showerId x) (set (keys ss))"
  by (simp add: showerStep_def Let_def set_keys_setProp)

lemma keys_showers_set: "set (keys (foldl showerStep [] obs)) = showerId ` set obs"
proof (induction obs rule: rev_induct)
  case Nil
  then show ?case by (simp add: keys_def)
next
  case (snoc x xs)
  then show ?case by (simp add: keys_showerStep_set)
qed

text \<open>
  Where no shower id is an array index, the keys are enumerated in the order of first
  appearance: the shower at position \<open>p\<close> of the keys first appears at some index
  \<open>i\<close> of the list, and every observation before \<open>i\<close> belongs to a key before \<open>p\<close>.
\<close>

lemma keys_showers_order:
  "\<forall>ob \<in> set obs. arrayIndex (showerId ob) = None \<Longrightarrow>
   p < length (keys (foldl showerStep [] obs)) \<Longrightarrow>
   \<exists>i < length obs. showerId (obs ! i) = keys (foldl showerStep [] obs) ! p \<and>
      (\<forall>j < i. \<exists>q < p. showerId (obs ! j) = keys (foldl showerStep [] obs) ! q)"
proof (induction obs arbitrary: p rule: rev_induct)
  case Nil
  then show ?case by (simp add: keys_def)
next
  case (snoc x xs)
  let ?ks = "keys (foldl showerStep [] xs)"
  define ks' where "ks' = keys (foldl showerStep [] (xs @ [x]))"
  from snoc.prems(1) have nx: "arrayIndex (showerId x) = None"
    and nxs: "\<forall>ob \<in> set xs. arrayIndex (showerId ob) = None" by simp_all
  have ks': "ks' = (if showerId x \<in> set ?ks then ?ks else ?ks @ [showerId x])"
    by (simp add: ks'_def keys_showerStep[OF nx])
  show ?case
  proof (cases "p < length ?ks")
    case True
    from snoc.IH[OF nxs True] obtain i where i: "i < length xs"
      and e: "showerId (xs ! i) = ?ks ! p"
      and b: "\<forall>j < i. \<exists>q < p. showerId (xs ! j) = ?ks ! q" by blast
    have nth: "ks' ! p = ?ks ! p"
      using True by (simp add: ks' nth_append)
    have nthq: "\<And>q. q < p \<Longrightarrow> ks' ! q = ?ks ! q"
      using True by (simp add: ks' nth_append)
    have "\<forall>j < i. \<exists>q < p. showerId ((xs @ [x]) ! j) = ks' ! q"
    proof (intro allI impI)
      fix j assume "j < i"
      with b obtain q where "q < p" "showerId (xs ! j) = ?ks ! q" by blast
      then show "\<exists>q < p. showerId ((xs @ [x]) ! j) = ks' ! q"
        using \<open>j < i\<close> i nthq by (auto simp: nth_append intro!: exI[of _ q])
    qed
    then show ?thesis using i e nth
      unfolding ks'_def[symmetric] by (intro exI[of _ i]) (simp add: nth_append)
  next
    case False
    with snoc.prems(2) have new: "showerId x \<notin> set ?ks" and p: "p = length ?ks"
      unfolding ks'_def[symmetric] by (auto simp: ks' split: if_splits)
    have nth: "ks' ! p = showerId x"
      using new p by (simp add: ks')
    have "\<forall>j < length xs. \<exists>q < p. showerId ((xs @ [x]) ! j) = ks' ! q"
    proof (intro allI impI)
      fix j assume j: "j < length xs"
      then have "showerId (xs ! j) \<in> set ?ks" by (simp add: keys_showers_set)
      then obtain q where "q < length ?ks" "?ks ! q = showerId (xs ! j)"
        by (auto simp: in_set_conv_nth)
      then show "\<exists>q < p. showerId ((xs @ [x]) ! j) = ks' ! q"
        using j p new by (auto simp: ks' nth_append intro!: exI[of _ q])
    qed
    then show ?thesis using nth
      unfolding ks'_def[symmetric] by (intro exI[of _ "length xs"]) simp
  qed
qed

lemma groupSize_snoc:
  "groupSize (xs @ [x]) s = groupSize xs s + (if showerId x = s then 1 else 0)"
  by (simp add: groupSize_def groupOf_def)

lemma showerStep_count:
  "\<exists>st. map_of (showerStep ss x) (showerId x) = Some st \<and>
        sh_observations st = countOr0 ss (showerId x) + 1"
  by (simp add: showerStep_def Let_def map_of_setProp countOr0_def split: option.splits)

lemma showers_count: "countOr0 (foldl showerStep [] obs) s = groupSize obs s"
proof (induction obs rule: rev_induct)
  case Nil
  then show ?case by (simp add: countOr0_def groupSize_def groupOf_def)
next
  case (snoc x xs)
  show ?case
  proof (cases "showerId x = s")
    case True
    from showerStep_count[of "foldl showerStep [] xs" x] True
    have "countOr0 (showerStep (foldl showerStep [] xs) x) s = countOr0 (foldl showerStep [] xs) s + 1"
      by (auto simp: countOr0_def)
    then show ?thesis using snoc True by (simp add: groupSize_snoc)
  next
    case False
    then show ?thesis using snoc
      by (simp add: groupSize_snoc countOr0_def showerStep_other)
  qed
qed

lemma countOr0_withAverages: "countOr0 (withAverages obs ss) s = countOr0 ss s"
proof (cases "map_of (withAverages obs ss) s")
  case None
  then show ?thesis using map_of_withAverages_None[of obs ss s] by (simp add: countOr0_def)
next
  case (Some st)
  from map_of_withAverages[OF Some] show ?thesis using Some by (auto simp: countOr0_def)
qed

text \<open>
  The reduce that picks the favourite, over any count \<open>f\<close>: the result is the start
  value, which no key exceeds, or the first key with the largest count, which exceeds
  the start value.
\<close>

lemma argmax_foldl:
  fixes f :: "string \<Rightarrow> nat"
  shows "foldl (\<lambda>fav k. if f k > f fav then k else fav) a ks = r \<Longrightarrow>
    (r = a \<and> (\<forall>k \<in> set ks. f k \<le> f a)) \<or>
    (\<exists>p < length ks. r = ks ! p \<and> f a < f r \<and> (\<forall>q < p. f (ks ! q) < f r) \<and>
        (\<forall>k \<in> set ks. f k \<le> f r))"
proof (induction ks arbitrary: a)
  case Nil
  then show ?case by simp
next
  case (Cons k ks)
  show ?case
  proof (cases "f k > f a")
    case True
    with Cons.prems have "foldl (\<lambda>fav k. if f k > f fav then k else fav) k ks = r" by simp
    from Cons.IH[OF this] show ?thesis
    proof
      assume "r = k \<and> (\<forall>k' \<in> set ks. f k' \<le> f k)"
      then have "r = (k # ks) ! 0 \<and> f a < f r \<and> (\<forall>q < 0. f ((k # ks) ! q) < f r) \<and>
          (\<forall>k' \<in> set (k # ks). f k' \<le> f r)" using True by simp
      then show ?thesis by (intro disjI2 exI[of _ 0]) auto
    next
      assume "\<exists>p < length ks. r = ks ! p \<and> f k < f r \<and> (\<forall>q < p. f (ks ! q) < f r) \<and>
        (\<forall>k' \<in> set ks. f k' \<le> f r)"
      then obtain p where p: "p < length ks" "r = ks ! p" "f k < f r"
        "\<forall>q < p. f (ks ! q) < f r" "\<forall>k' \<in> set ks. f k' \<le> f r" by blast
      have "\<forall>q < Suc p. f ((k # ks) ! q) < f r"
        using p(3,4) by (auto simp: nth_Cons split: nat.splits)
      then show ?thesis using p True
        by (intro disjI2 exI[of _ "Suc p"]) auto
    qed
  next
    case False
    with Cons.prems have "foldl (\<lambda>fav k. if f k > f fav then k else fav) a ks = r" by simp
    from Cons.IH[OF this] show ?thesis
    proof
      assume "r = a \<and> (\<forall>k' \<in> set ks. f k' \<le> f a)"
      then show ?thesis using False by auto
    next
      assume "\<exists>p < length ks. r = ks ! p \<and> f a < f r \<and> (\<forall>q < p. f (ks ! q) < f r) \<and>
        (\<forall>k' \<in> set ks. f k' \<le> f r)"
      then obtain p where p: "p < length ks" "r = ks ! p" "f a < f r"
        "\<forall>q < p. f (ks ! q) < f r" "\<forall>k' \<in> set ks. f k' \<le> f r" by blast
      have "\<forall>q < Suc p. f ((k # ks) ! q) < f r"
        using p(3,4) False by (auto simp: nth_Cons split: nat.splits)
      then show ?thesis using p False
        by (intro disjI2 exI[of _ "Suc p"]) auto
    qed
  qed
qed


lemma pickFavorite_count:
  "pickFavorite (withAverages obs (foldl showerStep [] obs)) =
   foldl (\<lambda>fav k. if groupSize obs k > groupSize obs fav then k else fav) []
     (keys (foldl showerStep [] obs))"
  by (simp add: pickFavorite_def countOr0_withAverages showers_count withAverages_keys)

lemma groupSize_pos: "ob \<in> set obs \<Longrightarrow> 0 < groupSize obs (showerId ob)"
  by (auto simp: groupSize_def groupOf_def filter_empty_conv)

lemma groupSize_absent: "s \<notin> showerId ` set obs \<Longrightarrow> groupSize obs s = 0"
  by (auto simp: groupSize_def groupOf_def filter_empty_conv)

text \<open>
  C4, as the code has it. For every non-empty observation list in which no showerId is
  the empty string or an array index, favoriteShower is the shower with the most
  observations, and among several with the most the one that appears first in the
  list; the observation count of every group of showerStats is the number of
  observations of that shower.
\<close>

theorem favoriteShower_first_largest:
  assumes "obs \<noteq> []" and "\<forall>ob \<in> set obs. showerId ob \<noteq> []"
    and "\<forall>ob \<in> set obs. arrayIndex (showerId ob) = None"
  shows "(\<exists>i. favoriteAt obs i \<and>
            favoriteShower (calculateStats rt today obs) = showerId (obs ! i)) \<and>
         (\<forall>k st. map_of (showerStats (calculateStats rt today obs)) k = Some st \<longrightarrow>
            sh_observations st = groupSize obs k)"
proof
  let ?ks = "keys (foldl showerStep [] obs)"
  let ?f = "groupSize obs"
  define r where "r = foldl (\<lambda>fav k. if ?f k > ?f fav then k else fav) [] ?ks"
  have fav: "favoriteShower (calculateStats rt today obs) = r"
    by (simp add: stats_favorite[OF assms(1)] pickFavorite_count r_def)
  have empty0: "?f [] = 0" using assms(2) by (intro groupSize_absent) auto
  obtain ob0 where ob0: "ob0 \<in> set obs" using assms(1) by (cases obs) auto
  then have "showerId ob0 \<in> set ?ks" by (simp add: keys_showers_set)
  moreover have "0 < ?f (showerId ob0)" using ob0 by (rule groupSize_pos)
  ultimately have notall: "\<not> (\<forall>k \<in> set ?ks. ?f k \<le> ?f [])" using empty0 by force
  from argmax_foldl[of ?f "[]" ?ks r] r_def notall
  obtain p where p: "p < length ?ks" "r = ?ks ! p" "\<forall>q < p. ?f (?ks ! q) < ?f r"
    "\<forall>k \<in> set ?ks. ?f k \<le> ?f r" by blast
  from keys_showers_order[OF assms(3) p(1)] obtain i where i: "i < length obs"
    "showerId (obs ! i) = ?ks ! p"
    "\<forall>j < i. \<exists>q < p. showerId (obs ! j) = ?ks ! q" by blast
  have ri: "showerId (obs ! i) = r" using i(2) p(2) by simp
  have all: "\<forall>b \<in> set obs. ?f (showerId b) \<le> ?f r"
    using p(4) by (simp add: keys_showers_set)
  have before: "\<forall>b \<in> set (take i obs). ?f (showerId b) < ?f r"
  proof
    fix b assume "b \<in> set (take i obs)"
    then obtain j where j: "j < i" "b = obs ! j"
      using i(1) by (auto simp: in_set_conv_nth)
    with i(3) obtain q where "q < p" "showerId (obs ! j) = ?ks ! q" by blast
    then show "?f (showerId b) < ?f r" using p(3) j by simp
  qed
  have "favoriteAt obs i"
    using i(1) all before ri by (simp add: favoriteAt_def list_all_iff)
  then show "\<exists>i. favoriteAt obs i \<and>
      favoriteShower (calculateStats rt today obs) = showerId (obs ! i)"
    using fav ri by auto
next
  show "\<forall>k st. map_of (showerStats (calculateStats rt today obs)) k = Some st \<longrightarrow>
      sh_observations st = groupSize obs k"
  proof (intro allI impI)
    fix k st assume "map_of (showerStats (calculateStats rt today obs)) k = Some st"
    then have "countOr0 (withAverages obs (foldl showerStep [] obs)) k = sh_observations st"
      by (simp add: stats_showers[OF assms(1)] countOr0_def)
    then show "sh_observations st = groupSize obs k"
      by (simp add: countOr0_withAverages showers_count)
  qed
qed

text \<open>
  Two ties that the first shower of the list loses. An empty showerId (the form's start
  value, saved when no shower is chosen) takes the tie from a shower that appears
  before it: the reduce starts from the empty string, whose own group then counts for
  the start value. And a showerId that is an array index is enumerated by
  \<open>Object.keys\<close> before a shower that appears before it.
\<close>

theorem favoriteShower_tie_counterexample:
  "favoriteAt [mkObs ''o1'' ''perseids'' ''2025-08-12'' ''21:00'' ''23:00'' 10 5,
               mkObs ''o2'' [] ''2025-08-13'' ''21:00'' ''23:00'' 4 3] 0 \<and>
   \<not> favoriteAt [mkObs ''o1'' ''perseids'' ''2025-08-12'' ''21:00'' ''23:00'' 10 5,
               mkObs ''o2'' [] ''2025-08-13'' ''21:00'' ''23:00'' 4 3] 1 \<and>
   showerId ([mkObs ''o1'' ''perseids'' ''2025-08-12'' ''21:00'' ''23:00'' 10 5,
               mkObs ''o2'' [] ''2025-08-13'' ''21:00'' ''23:00'' 4 3] ! 0) = ''perseids'' \<and>
   favoriteShower (calculateStats utcRuntime 0
              [mkObs ''o1'' ''perseids'' ''2025-08-12'' ''21:00'' ''23:00'' 10 5,
               mkObs ''o2'' [] ''2025-08-13'' ''21:00'' ''23:00'' 4 3]) = [] \<and>
   favoriteAt [mkObs ''o1'' ''perseids'' ''2025-08-12'' ''21:00'' ''23:00'' 10 5,
               mkObs ''o2'' ''1'' ''2025-08-13'' ''21:00'' ''23:00'' 4 3] 0 \<and>
   \<not> favoriteAt [mkObs ''o1'' ''perseids'' ''2025-08-12'' ''21:00'' ''23:00'' 10 5,
               mkObs ''o2'' ''1'' ''2025-08-13'' ''21:00'' ''23:00'' 4 3] 1 \<and>
   favoriteShower (calculateStats utcRuntime 0
              [mkObs ''o1'' ''perseids'' ''2025-08-12'' ''21:00'' ''23:00'' 10 5,
               mkObs ''o2'' ''1'' ''2025-08-13'' ''21:00'' ''23:00'' 4 3]) = ''1''"
proof -
  let ?obs = "[mkObs ''o1'' ''perseids'' ''2025-08-12'' ''21:00'' ''23:00'' 10 5,
               mkObs ''o2'' [] ''2025-08-13'' ''21:00'' ''23:00'' 4 3]"
  let ?obs1 = "[mkObs ''o1'' ''perseids'' ''2025-08-12'' ''21:00'' ''23:00'' 10 5,
               mkObs ''o2'' ''1'' ''2025-08-13'' ''21:00'' ''23:00'' 4 3]"
  have a: "favoriteAt ?obs 0 \<and> \<not> favoriteAt ?obs 1 \<and> showerId (?obs ! 0) = ''perseids''"
    by (simp add: favoriteAt_def groupSize_def groupOf_def mkObs_def)
  have a1: "favoriteAt ?obs1 0 \<and> \<not> favoriteAt ?obs1 1"
    by (simp add: favoriteAt_def groupSize_def groupOf_def mkObs_def)
  have ne: "?obs \<noteq> []" and ne1: "?obs1 \<noteq> []" by simp_all
  have i0: "arrayIndex [] = None" and ip: "arrayIndex ''perseids'' = None"
    and i1: "arrayIndex ''1'' = Some 1"
    by (simp_all add: arrayIndex_def digit_def)
  have b: "favoriteShower (calculateStats utcRuntime 0 ?obs) = []"
    unfolding stats_favorite[OF ne]
    by (simp add: pickFavorite_def withAverages_def showerStep_def countOr0_def keys_def
        sessionOf_def ratingSum_def mkObs_def Let_def setProp_def precedes_def i0 ip)
  have b1: "favoriteShower (calculateStats utcRuntime 0 ?obs1) = ''1''"
    unfolding stats_favorite[OF ne1]
    by (simp add: pickFavorite_def withAverages_def showerStep_def countOr0_def keys_def
        sessionOf_def ratingSum_def mkObs_def Let_def setProp_def precedes_def i1 ip)
  from a a1 b b1 show ?thesis by simp
qed

theorem favoriteShower_first_largest_witness:
  "[mkObs ''o1'' ''lyrids'' ''2025-04-22'' ''21:00'' ''23:00'' 10 5,
    mkObs ''o2'' ''perseids'' ''2025-08-12'' ''21:00'' ''23:00'' 4 3,
    mkObs ''o3'' ''perseids'' ''2025-08-13'' ''21:00'' ''23:00'' 7 4,
    mkObs ''o4'' ''lyrids'' ''2025-04-23'' ''21:00'' ''23:00'' 7 4] \<noteq> [] \<and>
   map showerId [mkObs ''o1'' ''lyrids'' ''2025-04-22'' ''21:00'' ''23:00'' 10 5,
    mkObs ''o2'' ''perseids'' ''2025-08-12'' ''21:00'' ''23:00'' 4 3,
    mkObs ''o3'' ''perseids'' ''2025-08-13'' ''21:00'' ''23:00'' 7 4,
    mkObs ''o4'' ''lyrids'' ''2025-04-23'' ''21:00'' ''23:00'' 7 4] =
     [''lyrids'', ''perseids'', ''perseids'', ''lyrids''] \<and>
   arrayIndex ''lyrids'' = None \<and> arrayIndex ''perseids'' = None \<and>
   favoriteShower (calculateStats utcRuntime 0
     [mkObs ''o1'' ''lyrids'' ''2025-04-22'' ''21:00'' ''23:00'' 10 5,
      mkObs ''o2'' ''perseids'' ''2025-08-12'' ''21:00'' ''23:00'' 4 3,
      mkObs ''o3'' ''perseids'' ''2025-08-13'' ''21:00'' ''23:00'' 7 4,
      mkObs ''o4'' ''lyrids'' ''2025-04-23'' ''21:00'' ''23:00'' 7 4]) = ''lyrids''"
proof -
  let ?obs = "[mkObs ''o1'' ''lyrids'' ''2025-04-22'' ''21:00'' ''23:00'' 10 5,
    mkObs ''o2'' ''perseids'' ''2025-08-12'' ''21:00'' ''23:00'' 4 3,
    mkObs ''o3'' ''perseids'' ''2025-08-13'' ''21:00'' ''23:00'' 7 4,
    mkObs ''o4'' ''lyrids'' ''2025-04-23'' ''21:00'' ''23:00'' 7 4]"
  have ne: "?obs \<noteq> []" by simp
  have il: "arrayIndex ''lyrids'' = None" and ip: "arrayIndex ''perseids'' = None"
    by (simp_all add: arrayIndex_def digit_def)
  have m: "map showerId ?obs = [''lyrids'', ''perseids'', ''perseids'', ''lyrids'']"
    by (simp add: mkObs_def)
  have ids: "\<forall>ob \<in> set ?obs. showerId ob \<noteq> []" by (simp add: mkObs_def)
  have idx: "\<forall>ob \<in> set ?obs. arrayIndex (showerId ob) = None"
    using il ip by (simp add: mkObs_def)
  from favoriteShower_first_largest[OF ne ids idx, of utcRuntime 0]
  obtain i where i: "favoriteAt ?obs i"
    and f: "favoriteShower (calculateStats utcRuntime 0 ?obs) = showerId (?obs ! i)" by blast
  have n: "\<not> favoriteAt ?obs 1 \<and> \<not> favoriteAt ?obs 2 \<and> \<not> favoriteAt ?obs 3"
    by (simp add: favoriteAt_def groupSize_def groupOf_def mkObs_def numeral_3_eq_3
        numeral_2_eq_2 take_Suc_conv_app_nth)
  have "i < 4" using i by (simp add: favoriteAt_def)
  then have "i = 0 \<or> i = 1 \<or> i = 2 \<or> i = 3" by auto
  then have "i = 0" using i n by auto
  then have "favoriteShower (calculateStats utcRuntime 0 ?obs) = ''lyrids''"
    using f by (simp add: mkObs_def)
  then show ?thesis using ne m il ip by blast
qed

section \<open>Session durations\<close>

lemma sessionHours_plain: "timesValid rt ob \<Longrightarrow> sessionHours rt ob = Num (plainHours rt ob)"
  by (auto simp: timesValid_def sessionHours_def plainHours_def)

lemma plainHours_negative:
  "getTime rt (date ob @ ''T'' @ startTime ob) = Some s \<Longrightarrow>
   getTime rt (date ob @ ''T'' @ endTime ob) = Some e \<Longrightarrow>
   (plainHours rt ob < 0) = (e < s)"
  by (simp add: plainHours_def divide_less_0_iff)

lemma foldl_hours:
  "\<forall>ob \<in> set obs. timesValid rt ob \<Longrightarrow>
   foldl (\<lambda>sum ob. jsAdd sum (sessionHours rt ob)) (Num a) obs =
   Num (a + sum_list (map (plainHours rt) obs))"
  by (induction obs arbitrary: a) (simp_all add: sessionHours_plain add.assoc)

lemma set_insertByDate: "set (insertByDate rt x ys) = insert x (set ys)"
  by (induction ys) auto

lemma set_sortByDate: "set (sortByDate rt obs) = set obs"
  by (induction obs) (auto simp: sortByDate_def set_insertByDate)

lemma foldl_jsMax_Num:
  "foldl jsMax (Num a) (map Num xs) = Num (Max (insert a (set xs)))"
proof (induction xs arbitrary: a)
  case Nil
  then show ?case by simp
next
  case (Cons x xs)
  have "Max (insert (max a x) (set xs)) = Max (insert a (insert x (set xs)))"
  proof (cases "set xs = {}")
    case True
    then show ?thesis by (simp add: max.commute)
  next
    case False
    then show ?thesis by (simp add: max.assoc)
  qed
  then show ?case using Cons by simp
qed

lemma mathMax_Num: "xs \<noteq> [] \<Longrightarrow> mathMax (map Num xs) = Num (Max (set xs))"
  by (cases xs) (simp_all add: mathMax_def foldl_jsMax_Num)

lemma map_sessionHours:
  "\<forall>ob \<in> set obs. timesValid rt ob \<Longrightarrow>
   map (sessionHours rt) obs = map Num (map (plainHours rt) obs)"
  by (simp add: sessionHours_plain)

text \<open>
  C2, as the code has it. For every non-empty observation list whose clock times all
  parse, totalHours is the sum and longestSession the maximum of the plain differences
  \<open>endTime - startTime\<close>, both taken on the session's own date; no 24 hours are added,
  so a session whose end is earlier than its start contributes a negative duration.
\<close>

theorem durations_without_rollover:
  assumes "obs \<noteq> []" and "\<forall>ob \<in> set obs. timesValid rt ob"
  shows "totalHours (calculateStats rt today obs) = Num (sum_list (map (plainHours rt) obs)) \<and>
         longestSession (calculateStats rt today obs) = Num (Max (plainHours rt ` set obs)) \<and>
         (\<forall>ob \<in> set obs. \<forall>s e.
            getTime rt (date ob @ ''T'' @ startTime ob) = Some s \<and>
            getTime rt (date ob @ ''T'' @ endTime ob) = Some e \<longrightarrow>
            plainHours rt ob = (real_of_int e - real_of_int s) / 3600000 \<and>
            (e < s \<longrightarrow> plainHours rt ob < 0))"
proof -
  have t: "totalHours (calculateStats rt today obs) = Num (sum_list (map (plainHours rt) obs))"
    using foldl_hours[OF assms(2), of 0] by (simp add: stats_hours[OF assms(1)])
  have v: "\<forall>ob \<in> set (sortByDate rt obs). timesValid rt ob"
    using assms(2) by (simp add: set_sortByDate)
  have ne: "map (plainHours rt) (sortByDate rt obs) \<noteq> []"
    using assms(1) length_sortByDate[of rt obs] by auto
  have l: "longestSession (calculateStats rt today obs) = Num (Max (plainHours rt ` set obs))"
    using mathMax_Num[OF ne]
    by (simp add: stats_longest[OF assms(1)] map_sessionHours[OF v] set_sortByDate)
  have n: "\<forall>ob \<in> set obs. \<forall>s e.
            getTime rt (date ob @ ''T'' @ startTime ob) = Some s \<and>
            getTime rt (date ob @ ''T'' @ endTime ob) = Some e \<longrightarrow>
            plainHours rt ob = (real_of_int e - real_of_int s) / 3600000 \<and>
            (e < s \<longrightarrow> plainHours rt ob < 0)"
  proof (intro ballI allI impI)
    fix ob :: observation and s e :: int
    assume "getTime rt (date ob @ ''T'' @ startTime ob) = Some s \<and>
            getTime rt (date ob @ ''T'' @ endTime ob) = Some e"
    then have s: "getTime rt (date ob @ ''T'' @ startTime ob) = Some s"
      and e: "getTime rt (date ob @ ''T'' @ endTime ob) = Some e" by simp_all
    have "plainHours rt ob = (real_of_int e - real_of_int s) / 3600000"
      using s e by (simp add: plainHours_def)
    then show "plainHours rt ob = (real_of_int e - real_of_int s) / 3600000 \<and>
            (e < s \<longrightarrow> plainHours rt ob < 0)"
      using plainHours_negative[OF s e] by simp
  qed
  from t l n show ?thesis by (intro conjI)
qed

text \<open>
  A session from 23:00 to 01:00 counts as -22 hours, not as the 2 hours of a rollover.
\<close>

theorem rollover_counterexample:
  "utcGetTime ''2025-08-12T23:00'' = Some 1755039600000 \<and>
   utcGetTime ''2025-08-12T01:00'' = Some 1754960400000 \<and>
   sessionHours utcRuntime (mkObs ''o1'' ''perseids'' ''2025-08-12'' ''23:00'' ''01:00'' 10 5)
     = Num (- 22) \<and>
   totalHours (calculateStats utcRuntime 0
      [mkObs ''o1'' ''perseids'' ''2025-08-12'' ''23:00'' ''01:00'' 10 5]) = Num (- 22) \<and>
   longestSession (calculateStats utcRuntime 0
      [mkObs ''o1'' ''perseids'' ''2025-08-12'' ''23:00'' ''01:00'' 10 5]) = Num (- 22)"
proof -
  let ?ob = "mkObs ''o1'' ''perseids'' ''2025-08-12'' ''23:00'' ''01:00'' 10 5"
  have s: "utcGetTime ''2025-08-12T23:00'' = Some 1755039600000" by (simp add: runtime_simps)
  have e: "utcGetTime ''2025-08-12T01:00'' = Some 1754960400000" by (simp add: runtime_simps)
  have h: "sessionHours utcRuntime ?ob = Num (- 22)"
    using s e by (simp add: sessionHours_def utcRuntime_def mkObs_def)
  have ne: "[?ob] \<noteq> []" by simp
  have t: "totalHours (calculateStats utcRuntime 0 [?ob]) = Num (- 22)"
    by (simp add: stats_hours[OF ne] h)
  have l: "longestSession (calculateStats utcRuntime 0 [?ob]) = Num (- 22)"
    by (simp add: stats_longest[OF ne] sortByDate_def mathMax_def h)
  show ?thesis using s e h t l by simp
qed

theorem durations_without_rollover_witness:
  "[mkObs ''o1'' ''perseids'' ''2025-08-12'' ''21:00'' ''23:30'' 10 5,
    mkObs ''o2'' ''perseids'' ''2025-08-13'' ''23:00'' ''01:00'' 4 3] \<noteq> [] \<and>
   timesValid utcRuntime (mkObs ''o1'' ''perseids'' ''2025-08-12'' ''21:00'' ''23:30'' 10 5) \<and>
   timesValid utcRuntime (mkObs ''o2'' ''perseids'' ''2025-08-13'' ''23:00'' ''01:00'' 4 3) \<and>
   totalHours (calculateStats utcRuntime 0
     [mkObs ''o1'' ''perseids'' ''2025-08-12'' ''21:00'' ''23:30'' 10 5,
      mkObs ''o2'' ''perseids'' ''2025-08-13'' ''23:00'' ''01:00'' 4 3]) = Num (- 39 / 2) \<and>
   longestSession (calculateStats utcRuntime 0
     [mkObs ''o1'' ''perseids'' ''2025-08-12'' ''21:00'' ''23:30'' 10 5,
      mkObs ''o2'' ''perseids'' ''2025-08-13'' ''23:00'' ''01:00'' 4 3]) = Num (5 / 2)"
proof -
  let ?o1 = "mkObs ''o1'' ''perseids'' ''2025-08-12'' ''21:00'' ''23:30'' 10 5"
  let ?o2 = "mkObs ''o2'' ''perseids'' ''2025-08-13'' ''23:00'' ''01:00'' 4 3"
  have ne: "[?o1, ?o2] \<noteq> []" by simp
  have p1: "plainHours utcRuntime ?o1 = 5 / 2" and v1: "timesValid utcRuntime ?o1"
    by (simp_all add: plainHours_def timesValid_def runtime_simps)
  have p2: "plainHours utcRuntime ?o2 = - 22" and v2: "timesValid utcRuntime ?o2"
    by (simp_all add: plainHours_def timesValid_def runtime_simps)
  have v: "\<forall>ob \<in> set [?o1, ?o2]. timesValid utcRuntime ob" using v1 v2 by simp
  show ?thesis
    using ne v1 v2 durations_without_rollover[OF ne v, of 0] p1 p2 by simp
qed

section \<open>The store under a schedule of failures\<close>

lemma nextFault_eq: "nextFault st = (failsAt 0 st, st \<lparr> faults := tl (faults st) \<rparr>)"
  by (cases "faults st") (simp_all add: nextFault_def failsAt_def)

lemma failsAt_Suc: "failsAt (Suc n) st = failsAt n (st \<lparr> faults := tl (faults st) \<rparr>)"
  by (cases "faults st") (simp_all add: failsAt_def)

lemma failsAt_item [simp]:
  "failsAt n (st \<lparr> observationsItem := x \<rparr>) = failsAt n st"
  "failsAt n (st \<lparr> statsItem := y \<rparr>) = failsAt n st"
  by (simp_all add: failsAt_def)

lemma noFault_item [simp]:
  "noFault n (st \<lparr> observationsItem := x \<rparr>) = noFault n st"
  "noFault n (st \<lparr> statsItem := y \<rparr>) = noFault n st"
  by (simp_all add: noFault_def)

lemma getObservations_eq:
  "getObservations st =
     (if failsAt 0 st then [] else storedObservations st, st \<lparr> faults := tl (faults st) \<rparr>)"
  by (simp add: getObservations_def getItemObservations_def nextFault_eq storedObservations_def
      split: option.splits)

lemma setItemObservations_eq:
  "setItemObservations xs st =
     (if failsAt 0 st then (Inl StorageError, st \<lparr> faults := tl (faults st) \<rparr>)
      else (Inr (), st \<lparr> faults := tl (faults st), observationsItem := Some xs \<rparr>))"
  by (simp add: setItemObservations_def nextFault_eq)

lemma setItemStats_eq:
  "setItemStats v st =
     (if failsAt 0 st then (Inl StorageError, st \<lparr> faults := tl (faults st) \<rparr>)
      else (Inr (), st \<lparr> faults := tl (faults st), statsItem := Some (toJSON v) \<rparr>))"
  by (simp add: setItemStats_def nextFault_eq)

lemma getStats_eq:
  "getStats st =
     (if failsAt 0 st then toJSON getEmptyStats
      else (case statsItem st of Some v \<Rightarrow> v | None \<Rightarrow> toJSON getEmptyStats),
      st \<lparr> faults := tl (faults st) \<rparr>)"
  by (simp add: getStats_def getItemStats_def nextFault_eq split: option.splits)

lemma updateStats_items:
  "observationsItem (updateStats rt today st) = observationsItem st"
  by (simp add: updateStats_def getObservations_eq setItemStats_eq)


text \<open>The list that saveObservation writes, from the list it has read.\<close>

lemma saveObservation_eq:
  "saveObservation rt nowIso today ob st =
     (let obs = (if failsAt 0 st then [] else storedObservations st);
          i = findIndex (\<lambda>x. id' x = id' ob) obs;
          obs' = (if i \<ge> 0 then obs[nat i := ob \<lparr> updatedAt := nowIso \<rparr>] else obs @ [ob]);
          st1 = st \<lparr> faults := tl (tl (faults st)) \<rparr>
      in if failsAt 1 st then (Inl StorageError, st1)
         else (Inr (), updateStats rt today (st1 \<lparr> observationsItem := Some obs' \<rparr>)))"
  by (simp add: saveObservation_def getObservations_eq setItemObservations_eq Let_def
      failsAt_Suc[symmetric])

lemma deleteObservation_eq:
  "deleteObservation rt today oid st =
     (let obs = (if failsAt 0 st then [] else storedObservations st);
          st1 = st \<lparr> faults := tl (tl (faults st)) \<rparr>
      in if failsAt 1 st then (Inl StorageError, st1)
         else (Inr (), updateStats rt today
                 (st1 \<lparr> observationsItem := Some (filter (\<lambda>x. id' x \<noteq> oid) obs) \<rparr>)))"
  by (simp add: deleteObservation_def getObservations_eq setItemObservations_eq Let_def
      failsAt_Suc[symmetric])

lemma noFault_iff: "noFault n st = (\<forall>i < n. \<not> failsAt i st)"
  by (auto simp: noFault_def failsAt_def list_all_iff in_set_conv_nth)


section \<open>The stats cache\<close>








section \<open>Failures of the store\<close>

text \<open>
  A failing write of the observation list does reach the caller, through the \<open>catch\<close>
  that rethrows, and leaves both items as they were.
\<close>

lemma write_failure_propagates:
  assumes "failsAt 1 st"
  shows "fst (saveObservation rt nowIso today ob st) = Inl StorageError \<and>
      observationsItem (snd (saveObservation rt nowIso today ob st)) = observationsItem st \<and>
      statsItem (snd (saveObservation rt nowIso today ob st)) = statsItem st \<and>
      fst (deleteObservation rt today oid st) = Inl StorageError \<and>
      observationsItem (snd (deleteObservation rt today oid st)) = observationsItem st \<and>
      statsItem (snd (deleteObservation rt today oid st)) = statsItem st"
  using assms by (simp add: saveObservation_eq deleteObservation_eq Let_def)

text \<open>
  The read path: a failing read gives the empty list from getObservations and the
  zero-valued stats from getStats.
\<close>

lemma read_path_degrades:
  assumes "failsAt 0 st"
  shows "fst (getObservations st) = [] \<and> fst (getStats st) = toJSON getEmptyStats"
  using assms by (simp add: getObservations_eq getStats_eq)

lemma toJSON_getEmptyStats:
  "toJSON getEmptyStats =
     \<lparr> totalObservations = 0, totalMeteors = 0, totalHours = JNum 0, averageRating = 0,
       favoriteShower = [], longestSession = JNum 0, currentStreak = 0, longestStreak = 0,
       monthlyStats = [], showerStats = [] \<rparr>"
  by (simp add: toJSON_def getEmptyStats_def)

text \<open>
  A failing read of the list inside saveObservation or deleteObservation is swallowed
  by getObservations: the operation goes on from the empty list, writes it back with
  its change, and succeeds.
\<close>

lemma read_failure_overwrites:
  assumes "failsAt 0 st" and "\<not> failsAt 1 st"
  shows "fst (saveObservation rt nowIso today ob st) = Inr () \<and>
      observationsItem (snd (saveObservation rt nowIso today ob st)) = Some [ob] \<and>
      fst (deleteObservation rt today oid st) = Inr () \<and>
      observationsItem (snd (deleteObservation rt today oid st)) = Some []"
  using assms
  by (simp add: saveObservation_eq deleteObservation_eq Let_def updateStats_items)

text \<open>
  C7. The claim is that a store error during saveObservation or deleteObservation
  reaches the caller and leaves the stored observation list unchanged. The code does
  not do so when the store rejects the read of the list: with one observation stored
  and the read rejected, saveObservation of a second observation reports success and
  the stored list is the second observation alone; deleteObservation reports success
  and the stored list is empty, whatever id it was given.
\<close>

theorem read_failure_loses_list:
  "failsAt 0 \<lparr> observationsItem =
             Some [mkObs ''o1'' ''perseids'' ''2025-08-12'' ''21:00'' ''23:00'' 10 5],
           statsItem = None, faults = [True] \<rparr> \<and>
   fst (saveObservation utcRuntime ''2025-08-13T08:00:00.000Z'' 0
          (mkObs ''o2'' ''lyrids'' ''2025-04-22'' ''21:00'' ''23:00'' 4 3)
          \<lparr> observationsItem =
             Some [mkObs ''o1'' ''perseids'' ''2025-08-12'' ''21:00'' ''23:00'' 10 5],
            statsItem = None, faults = [True] \<rparr>) = Inr () \<and>
   observationsItem (snd (saveObservation utcRuntime ''2025-08-13T08:00:00.000Z'' 0
          (mkObs ''o2'' ''lyrids'' ''2025-04-22'' ''21:00'' ''23:00'' 4 3)
          \<lparr> observationsItem =
             Some [mkObs ''o1'' ''perseids'' ''2025-08-12'' ''21:00'' ''23:00'' 10 5],
            statsItem = None, faults = [True] \<rparr>))
     = Some [mkObs ''o2'' ''lyrids'' ''2025-04-22'' ''21:00'' ''23:00'' 4 3] \<and>
   fst (deleteObservation utcRuntime 0 ''o9''
          \<lparr> observationsItem =
             Some [mkObs ''o1'' ''perseids'' ''2025-08-12'' ''21:00'' ''23:00'' 10 5],
            statsItem = None, faults = [True] \<rparr>) = Inr () \<and>
   observationsItem (snd (deleteObservation utcRuntime 0 ''o9''
          \<lparr> observationsItem =
             Some [mkObs ''o1'' ''perseids'' ''2025-08-12'' ''21:00'' ''23:00'' 10 5],
            statsItem = None, faults = [True] \<rparr>))
     = Some []"
  by (simp add: saveObservation_def deleteObservation_def getObservations_def
      getItemObservations_def setItemObservations_def updateStats_def setItemStats_def
      nextFault_def failsAt_def Let_def)

section \<open>saveObservation as an upsert\<close>

lemma findIndex_none: "\<forall>x \<in> set xs. \<not> P x \<Longrightarrow> findIndex P xs = -1"
  by (induction xs) simp_all

lemma findIndex_first:
  "\<exists>x \<in> set xs. P x \<Longrightarrow>
   \<exists>i < length xs. findIndex P xs = int i \<and> P (xs ! i) \<and> (\<forall>j < i. \<not> P (xs ! j))"
proof (induction xs)
  case Nil
  then show ?case by simp
next
  case (Cons x xs)
  show ?case
  proof (cases "P x")
    case True
    then show ?thesis by (intro exI[of _ 0]) simp
  next
    case False
    with Cons.prems have "\<exists>x \<in> set xs. P x" by simp
    from Cons.IH[OF this] obtain i where i: "i < length xs" "findIndex P xs = int i"
      "P (xs ! i)" "\<forall>j < i. \<not> P (xs ! j)" by blast
    have "\<forall>j < Suc i. \<not> P ((x # xs) ! j)"
      using False i(4) by (auto simp: nth_Cons split: nat.splits)
    then show ?thesis using False i
      by (intro exI[of _ "Suc i"]) (simp add: Let_def)
  qed
qed

lemma updateStats_faults: "faults (updateStats rt today st) = tl (tl (faults st))"
  by (simp add: updateStats_def getObservations_eq setItemStats_eq)

lemma failsAt_faults: "faults st = faults st' \<Longrightarrow> failsAt n st = failsAt n st'"
  by (simp add: failsAt_def)

text \<open>
  C8, as the code has it. When no call of the store fails, saveObservation succeeds, and
  the list reloaded right after it is the old list with the observation appended as it
  was given (updatedAt included) when its id is unseen, and otherwise with the first
  record of that id replaced by the observation with updatedAt set to the time of the
  save.
\<close>

theorem saveObservation_upsert:
  assumes "noFault 5 st"
  shows "fst (saveObservation rt nowIso today ob st) = Inr () \<and>
     (id' ob \<notin> id' ` set (storedObservations st) \<longrightarrow>
        fst (getObservations (snd (saveObservation rt nowIso today ob st))) =
          storedObservations st @ [ob]) \<and>
     (id' ob \<in> id' ` set (storedObservations st) \<longrightarrow>
        (\<exists>i < length (storedObservations st).
           id' (storedObservations st ! i) = id' ob \<and>
           (\<forall>j < i. id' (storedObservations st ! j) \<noteq> id' ob) \<and>
           fst (getObservations (snd (saveObservation rt nowIso today ob st))) =
             (storedObservations st)[i := ob \<lparr> updatedAt := nowIso \<rparr>]))"
proof -
  let ?old = "storedObservations st"
  let ?new = "if findIndex (\<lambda>x. id' x = id' ob) ?old \<ge> 0
              then ?old[nat (findIndex (\<lambda>x. id' x = id' ob) ?old) := ob \<lparr> updatedAt := nowIso \<rparr>]
              else ?old @ [ob]"
  let ?st1 = "st \<lparr> faults := tl (tl (faults st)), observationsItem := Some ?new \<rparr>"
  from assms have f: "\<not> failsAt 0 st" "\<not> failsAt 1 st" "\<not> failsAt 4 st"
    by (simp_all add: noFault_iff)
  have s: "saveObservation rt nowIso today ob st = (Inr (), updateStats rt today ?st1)"
    using f(1,2) by (simp add: saveObservation_eq Let_def)
  have "failsAt 0 (updateStats rt today ?st1) =
      failsAt 0 (st \<lparr> faults := tl (tl (tl (tl (faults st)))) \<rparr>)"
    by (rule failsAt_faults) (simp add: updateStats_faults)
  also have "\<dots> = failsAt 4 st"
    by (simp add: numeral_eq_Suc failsAt_Suc)
  finally have "failsAt 0 (updateStats rt today ?st1) = failsAt 4 st" .
  then have r: "fst (getObservations (updateStats rt today ?st1)) = ?new"
    using f(3) by (simp add: getObservations_eq storedObservations_def updateStats_items)
  show ?thesis
  proof (intro conjI impI)
    show "fst (saveObservation rt nowIso today ob st) = Inr ()" by (simp add: s)
  next
    assume "id' ob \<notin> id' ` set ?old"
    then have "\<forall>x \<in> set ?old. \<not> id' x = id' ob" by (metis imageI)
    from findIndex_none[OF this] r show
      "fst (getObservations (snd (saveObservation rt nowIso today ob st))) = ?old @ [ob]"
      by (simp add: s)
  next
    assume "id' ob \<in> id' ` set ?old"
    then have "\<exists>x \<in> set ?old. id' x = id' ob" by (metis imageE)
    from findIndex_first[OF this] obtain i where i: "i < length ?old"
      "findIndex (\<lambda>x. id' x = id' ob) ?old = int i" "id' (?old ! i) = id' ob"
      "\<forall>j < i. id' (?old ! j) \<noteq> id' ob" by blast
    have "fst (getObservations (snd (saveObservation rt nowIso today ob st))) =
        ?old[i := ob \<lparr> updatedAt := nowIso \<rparr>]"
      using i(2) r by (simp add: s)
    then show "\<exists>i < length ?old. id' (?old ! i) = id' ob \<and>
        (\<forall>j < i. id' (?old ! j) \<noteq> id' ob) \<and>
        fst (getObservations (snd (saveObservation rt nowIso today ob st))) =
          ?old[i := ob \<lparr> updatedAt := nowIso \<rparr>]"
      using i by blast
  qed
qed


text \<open>
  A first save of an observation whose updatedAt is older than the time of the save: the
  reloaded record still has the old updatedAt.
\<close>

theorem insert_keeps_updatedAt_counterexample:
  "updatedAt (mkObs ''o1'' ''perseids'' ''2025-08-12'' ''21:00'' ''23:00'' 10 5)
     = ''2025-01-01T00:00:00.000Z'' \<and>
   fst (saveObservation utcRuntime ''2025-08-13T08:00:00.000Z'' 0
          (mkObs ''o1'' ''perseids'' ''2025-08-12'' ''21:00'' ''23:00'' 10 5)
          \<lparr> observationsItem = None, statsItem = None, faults = [] \<rparr>) = Inr () \<and>
   map updatedAt
     (fst (getObservations (snd (saveObservation utcRuntime ''2025-08-13T08:00:00.000Z'' 0
          (mkObs ''o1'' ''perseids'' ''2025-08-12'' ''21:00'' ''23:00'' 10 5)
          \<lparr> observationsItem = None, statsItem = None, faults = [] \<rparr>))))
     = [''2025-01-01T00:00:00.000Z'']"
  by (simp add: saveObservation_def getObservations_def getItemObservations_def
      setItemObservations_def updateStats_def setItemStats_def nextFault_def Let_def mkObs_def)

theorem saveObservation_upsert_witness:
  "noFault 5 \<lparr> observationsItem =
              Some [mkObs ''o1'' ''perseids'' ''2025-08-12'' ''21:00'' ''23:00'' 10 5],
            statsItem = None, faults = [] \<rparr> \<and>
   fst (getObservations (snd (saveObservation utcRuntime ''2025-08-13T08:00:00.000Z'' 0
          (mkObs ''o1'' ''perseids'' ''2025-08-12'' ''21:00'' ''23:30'' 12 4)
          \<lparr> observationsItem =
              Some [mkObs ''o1'' ''perseids'' ''2025-08-12'' ''21:00'' ''23:00'' 10 5],
            statsItem = None, faults = [] \<rparr>)))
     = [(mkObs ''o1'' ''perseids'' ''2025-08-12'' ''21:00'' ''23:30'' 12 4)
          \<lparr> updatedAt := ''2025-08-13T08:00:00.000Z'' \<rparr>]"
proof -
  let ?a = "mkObs ''o1'' ''perseids'' ''2025-08-12'' ''21:00'' ''23:00'' 10 5"
  let ?b = "mkObs ''o1'' ''perseids'' ''2025-08-12'' ''21:00'' ''23:30'' 12 4"
  let ?st = "\<lparr> observationsItem = Some [?a], statsItem = None, faults = [] \<rparr>"
  have n: "noFault 5 ?st" by (simp add: noFault_def)
  have old: "storedObservations ?st = [?a]" by (simp add: storedObservations_def)
  have seen: "id' ?b \<in> id' ` set (storedObservations ?st)"
    unfolding old by (simp add: mkObs_def)
  from saveObservation_upsert[OF n, of utcRuntime "''2025-08-13T08:00:00.000Z''" 0 ?b] seen
  obtain i where "i < length (storedObservations ?st)"
    and "fst (getObservations (snd (saveObservation utcRuntime ''2025-08-13T08:00:00.000Z'' 0 ?b ?st)))
      = (storedObservations ?st)[i := ?b \<lparr> updatedAt := ''2025-08-13T08:00:00.000Z'' \<rparr>]"
    by blast
  then have "fst (getObservations (snd (saveObservation utcRuntime ''2025-08-13T08:00:00.000Z'' 0 ?b ?st)))
      = [?b \<lparr> updatedAt := ''2025-08-13T08:00:00.000Z'' \<rparr>]"
    by (simp add: old)
  with n show ?thesis by simp
qed

end
